theory Spec2Isabelle
  imports Complex_Main "HOL-Library.Signed_Division" "HOL-Library.Word"
begin

section \<open>The Go runtime and standard library, as far as the program uses them\<close>

text \<open>
  Strings are byte sequences in Go; \<open>len\<close> and slicing count bytes, as \<open>length\<close>,
  \<open>take\<close> and \<open>drop\<close> do on a \<open>string\<close>. Pixel coordinates and counters are Go
  \<open>int\<close>s (64 bit); they stay within the image bounds, so they are modelled by \<open>int\<close>.
  \<open>time.Duration\<close> is an \<open>int64\<close> count of nanoseconds whose sums can leave the range,
  so its additions are wrapped explicitly.
\<close>

subsection \<open>Errors\<close>

datatype error =
    ErrNotFound                     \<comment> \<open>\<open>errors.New("not found")\<close>\<close>
  | FirstRowNotFound                \<comment> \<open>\<open>errors.New("first row not found")\<close>\<close>
  | FirstColNotFound                \<comment> \<open>\<open>errors.New("first col not found")\<close>\<close>
  | UnexpectedDateFormat string     \<comment> \<open>\<open>fmt.Errorf("unexpected date format: %v", s)\<close>\<close>
  | FailedToParseDate               \<comment> \<open>\<open>fmt.Errorf("failed to parse date: %v", err)\<close>\<close>
  | ParseError                      \<comment> \<open>the \<open>*time.ParseError\<close> of \<open>time.Parse\<close>\<close>
  | BothTimesEmpty                  \<comment> \<open>\<open>errors.New("both times are empty")\<close>\<close>
  | BothTimesNonEmpty               \<comment> \<open>\<open>errors.New("both times are non-empty")\<close>\<close>
  | IndexOutOfRange                 \<comment> \<open>the runtime panic of an index out of range\<close>

subsection \<open>Durations\<close>

type_synonym Duration = int

definition wrap64 :: "int \<Rightarrow> int" where
  "wrap64 x = (x + 2 ^ 63) mod 2 ^ 64 - 2 ^ 63"

definition Nanosecond :: Duration where "Nanosecond = 1"
definition Second :: Duration where "Second = 1000000000"
definition Minute :: Duration where "Minute = 60000000000"
definition Hour :: Duration where "Hour = 3600000000000"

definition minDuration :: Duration where "minDuration = - (2 ^ 63)"
definition maxDuration :: Duration where "maxDuration = 2 ^ 63 - 1"

text \<open>\<open>lessThanHalf x y\<close> is \<open>uint64(x)+uint64(x) < uint64(y)\<close>.\<close>

definition lessThanHalf :: "Duration \<Rightarrow> Duration \<Rightarrow> bool" where
  "lessThanHalf x y = (((x mod 2 ^ 64) + (x mod 2 ^ 64)) mod 2 ^ 64 < y mod 2 ^ 64)"

text \<open>\<open>Duration.Round\<close>: to the nearest multiple of \<open>m\<close>, halfway values away from zero.\<close>

definition Round :: "Duration \<Rightarrow> Duration \<Rightarrow> Duration" where
  "Round d m =
     (if m \<le> 0 then d
      else let r = d smod m in
        if d < 0 then
          (let r' = - r in
           if lessThanHalf r' m then wrap64 (d + r')
           else let d1 = wrap64 (d - m + r') in
             if d1 < d then d1 else minDuration)
        else
          (if lessThanHalf r m then wrap64 (d - r)
           else let d1 = wrap64 (d + m - r) in
             if d1 > d then d1 else maxDuration))"

subsection \<open>Calendar arithmetic\<close>

text \<open>
  A \<open>time.Time\<close> in UTC is the number of nanoseconds since 1 January of year 1, 00:00:00;
  the zero \<open>Time\<close> is that instant. The program only builds times in UTC (\<open>time.Parse\<close>
  of a layout without a zone, and the zero value).
\<close>

datatype Time = Time (abs_ns: int)

definition zeroTime :: Time where
  "zeroTime = Time 0"

fun isLeap :: "int \<Rightarrow> bool" where
  "isLeap y = (y mod 4 = 0 \<and> (y mod 100 \<noteq> 0 \<or> y mod 400 = 0))"

text \<open>\<open>daysBefore[m]\<close>: the days of a non-leap year before month \<open>m + 1\<close>.\<close>

definition daysBefore :: "int \<Rightarrow> int" where
  "daysBefore m =
     (if m \<le> 0 then 0 else if m = 1 then 31 else if m = 2 then 59 else if m = 3 then 90
      else if m = 4 then 120 else if m = 5 then 151 else if m = 6 then 181
      else if m = 7 then 212 else if m = 8 then 243 else if m = 9 then 273
      else if m = 10 then 304 else if m = 11 then 334 else 365)"

definition daysIn :: "int \<Rightarrow> int \<Rightarrow> int" where
  "daysIn m year =
     (if m = 2 \<and> isLeap year then 29 else daysBefore m - daysBefore (m - 1))"

definition daysSinceEpoch :: "int \<Rightarrow> int" where
  "daysSinceEpoch year =
     (let y = year - 1 in 365 * y + y div 4 - y div 100 + y div 400)"

text \<open>\<open>time.Date\<close> in UTC, for a month in \<open>1..12\<close> (the program passes validated fields).\<close>

definition Date :: "int \<Rightarrow> int \<Rightarrow> int \<Rightarrow> int \<Rightarrow> int \<Rightarrow> int \<Rightarrow> int \<Rightarrow> Time" where
  "Date year month day hour mn sec nsec =
     (let d = daysSinceEpoch year + daysBefore (month - 1)
              + (if isLeap year \<and> month \<ge> 3 then 1 else 0) + (day - 1)
      in Time ((d * 86400 + hour * 3600 + mn * 60 + sec) * 1000000000 + nsec))"

definition absDays :: "Time \<Rightarrow> int" where
  "absDays t = abs_ns t div 86400000000000"

text \<open>The year and the zero-based day of the year of a day count, by 400/100/4/1-year cycles.\<close>

definition yearYday :: "int \<Rightarrow> int \<times> int" where
  "yearYday days =
     (let n400 = days div 146097;
          d = days mod 146097;
          n100 = d div 36524;
          n100 = n100 - n100 div 4;
          d = d - 36524 * n100;
          n4 = d div 1461;
          d = d - 1461 * n4;
          n1 = d div 365;
          n1 = n1 - n1 div 4;
          d = d - 365 * n1
      in (400 * n400 + 100 * n100 + 4 * n4 + n1 + 1, d))"

definition monthDay :: "int \<Rightarrow> int \<Rightarrow> int \<times> int" where
  "monthDay year yday =
     (if isLeap year \<and> yday = 59 then (2, 29)
      else let day = (if isLeap year \<and> yday > 59 then yday - 1 else yday);
               m = day div 31;
               e = daysBefore (m + 1)
           in if day \<ge> e then (m + 2, day - e + 1)
              else (m + 1, day - daysBefore m + 1))"

definition Year :: "Time \<Rightarrow> int" where
  "Year t = fst (yearYday (absDays t))"

definition Month :: "Time \<Rightarrow> int" where
  "Month t = (case yearYday (absDays t) of (y, yd) \<Rightarrow> fst (monthDay y yd))"

definition Day :: "Time \<Rightarrow> int" where
  "Day t = (case yearYday (absDays t) of (y, yd) \<Rightarrow> snd (monthDay y yd))"

definition Hour_of :: "Time \<Rightarrow> int" where
  "Hour_of t = (abs_ns t div 3600000000000) mod 24"

definition Minute_of :: "Time \<Rightarrow> int" where
  "Minute_of t = (abs_ns t div 60000000000) mod 60"

definition Add :: "Time \<Rightarrow> Duration \<Rightarrow> Time" where
  "Add t d = Time (abs_ns t + d)"

subsection \<open>Layouts, formatting and parsing\<close>

text \<open>
  A layout string is read by \<open>nextStdChunk\<close> as a sequence of literal prefixes and
  standard chunks; the layouts of the program are given in that form. In \<open>"15.04"\<close> the
  dot is a literal: \<open>".0"\<close> starts a fractional second only when no digit follows the zeros.
\<close>

datatype chunk = Lit string | stdZeroDay | stdZeroMonth | stdLongYear | stdHour | stdZeroMinute

type_synonym layout = "chunk list"

definition isDigit :: "string \<Rightarrow> nat \<Rightarrow> bool" where
  "isDigit s i = (i < length s \<and> (48::nat) \<le> of_char (s ! i) \<and> of_char (s ! i) \<le> (57::nat))"

definition digitVal :: "char \<Rightarrow> int" where
  "digitVal c = int (of_char c) - 48"

definition digitChar :: "nat \<Rightarrow> char" where
  "digitChar n = char_of (48 + n)"

fun utod :: "nat \<Rightarrow> nat \<Rightarrow> string" where
  "utod 0 u = []"
| "utod (Suc n) u = utod n (u div 10) @ [digitChar (u mod 10)]"

fun ndigits :: "nat \<Rightarrow> nat \<Rightarrow> nat" where
  "ndigits 0 u = 0"
| "ndigits (Suc f) u = (if u = 0 then 0 else Suc (ndigits f (u div 10)))"

text \<open>\<open>appendInt\<close>: the decimal form of \<open>x\<close>, zero-padded to \<open>width\<close>, with a sign when negative.\<close>

definition appendInt :: "int \<Rightarrow> nat \<Rightarrow> string" where
  "appendInt x width =
     (let u = nat \<bar>x\<bar>;
          n = (if u = 0 then 1 else ndigits (Suc u) u)
      in (if x < 0 then ''-'' else '''') @ replicate (width - n) (CHR ''0'') @ utod n u)"

fun formatChunk :: "Time \<Rightarrow> chunk \<Rightarrow> string" where
  "formatChunk t (Lit s) = s"
| "formatChunk t stdZeroDay = appendInt (Day t) 2"
| "formatChunk t stdZeroMonth = appendInt (Month t) 2"
| "formatChunk t stdLongYear = appendInt (Year t) 4"
| "formatChunk t stdHour = appendInt (Hour_of t) 2"
| "formatChunk t stdZeroMinute = appendInt (Minute_of t) 2"

definition Format :: "Time \<Rightarrow> layout \<Rightarrow> string" where
  "Format t l = concat (map (formatChunk t) l)"

text \<open>\<open>getnum\<close>: one or two digits; exactly two when \<open>fixed\<close>.\<close>

definition getnum :: "string \<Rightarrow> bool \<Rightarrow> (int \<times> string) option" where
  "getnum s fixed =
     (if \<not> isDigit s 0 then None
      else if \<not> isDigit s 1 then
        (if fixed then None else Some (digitVal (s ! 0), drop 1 s))
      else Some (digitVal (s ! 0) * 10 + digitVal (s ! 1), drop 2 s))"

text \<open>\<open>skip\<close>: the value must start with the literal prefix; a space stands for any run of spaces.\<close>

function skip :: "string \<Rightarrow> string \<Rightarrow> string option" where
  "skip v [] = Some v"
| "skip v (p # ps) =
     (if p = CHR '' '' then
        (if v \<noteq> [] \<and> hd v \<noteq> CHR '' '' then None
         else skip (dropWhile (\<lambda>c. c = CHR '' '') v) (dropWhile (\<lambda>c. c = CHR '' '') ps))
      else (case v of [] \<Rightarrow> None | c # cs \<Rightarrow> if c = p then skip cs ps else None))"
  by pat_completeness auto
termination
  by (relation "measure (\<lambda>(v, p). length p)") (auto simp: length_dropWhile_le less_Suc_eq_le)

record fields =
  f_year :: int
  f_month :: int
  f_day :: int
  f_hour :: int
  f_min :: int

definition fields0 :: fields where
  "fields0 = \<lparr>f_year = 0, f_month = - 1, f_day = - 1, f_hour = 0, f_min = 0\<rparr>"

text \<open>One standard chunk of \<open>time.Parse\<close>: the field it reads and the rest of the value.\<close>

fun parseChunk :: "chunk \<Rightarrow> string \<Rightarrow> fields \<Rightarrow> (fields \<times> string) option" where
  "parseChunk (Lit p) v f = (case skip v p of None \<Rightarrow> None | Some v' \<Rightarrow> Some (f, v'))"
| "parseChunk stdZeroDay v f =
     (case getnum v True of None \<Rightarrow> None | Some (d, v') \<Rightarrow> Some (f\<lparr>f_day := d\<rparr>, v'))"
| "parseChunk stdZeroMonth v f =
     (case getnum v True of None \<Rightarrow> None
      | Some (m, v') \<Rightarrow> if m \<le> 0 \<or> 12 < m then None else Some (f\<lparr>f_month := m\<rparr>, v'))"
| "parseChunk stdLongYear v f =
     (if length v < 4 \<or> \<not> isDigit v 0 then None
      else if \<not> (isDigit v 1 \<and> isDigit v 2 \<and> isDigit v 3) then None
      else Some (f\<lparr>f_year := digitVal (v ! 0) * 1000 + digitVal (v ! 1) * 100
                               + digitVal (v ! 2) * 10 + digitVal (v ! 3)\<rparr>, drop 4 v))"
| "parseChunk stdHour v f =
     (case getnum v False of None \<Rightarrow> None
      | Some (h, v') \<Rightarrow> if h < 0 \<or> 24 \<le> h then None else Some (f\<lparr>f_hour := h\<rparr>, v'))"
| "parseChunk stdZeroMinute v f =
     (case getnum v True of None \<Rightarrow> None
      | Some (m, v') \<Rightarrow> if m < 0 \<or> 60 \<le> m then None else Some (f\<lparr>f_min := m\<rparr>, v'))"

fun parseChunks :: "layout \<Rightarrow> string \<Rightarrow> fields \<Rightarrow> fields option" where
  "parseChunks [] v f = (if v \<noteq> [] then None else Some f)"
| "parseChunks (c # cs) v f =
     (case parseChunk c v f of None \<Rightarrow> None | Some (f', v') \<Rightarrow> parseChunks cs v' f')"

text \<open>\<open>time.Parse\<close>: the chunks in order, no text left over, then the day checked against the month.\<close>

definition Parse :: "layout \<Rightarrow> string \<Rightarrow> error + Time" where
  "Parse l v =
     (case parseChunks l v fields0 of
        None \<Rightarrow> Inl ParseError
      | Some f \<Rightarrow>
          let month = (if f_month f < 0 then 1 else f_month f);
              day = (if f_day f < 0 then 1 else f_day f)
          in if day < 1 \<or> day > daysIn month (f_year f) then Inl ParseError
             else Inr (Date (f_year f) month day (f_hour f) (f_min f) 0 0))"

section \<open>Entries: dates and times read from recognised text\<close>

text \<open>The layout constants \<open>"02/01"\<close>, \<open>"15:04"\<close>, \<open>"02012006"\<close>, and the latter followed
  by \<open>"15.04"\<close> and by \<open>"1504"\<close>.\<close>

definition prettyDate :: layout where
  "prettyDate = [stdZeroDay, Lit ''/'', stdZeroMonth]"

definition prettyTime :: layout where
  "prettyTime = [stdHour, Lit '':'', stdZeroMinute]"

definition dateFormat :: layout where
  "dateFormat = [stdZeroDay, stdZeroMonth, stdLongYear]"

definition timeFormat :: layout where
  "timeFormat = dateFormat @ [stdHour, Lit ''.'', stdZeroMinute]"

definition timeFormat2 :: layout where
  "timeFormat2 = dateFormat @ [stdHour, stdZeroMinute]"

text \<open>\<open>strings.Replace(s, old, new, 1)\<close> for a non-empty \<open>old\<close>: the first occurrence.\<close>

fun replaceFirst :: "string \<Rightarrow> string \<Rightarrow> string \<Rightarrow> string" where
  "replaceFirst old new [] = []"
| "replaceFirst old new (c # cs) =
     (if take (length old) (c # cs) = old then new @ drop (length old) (c # cs)
      else c # replaceFirst old new cs)"

definition parseClean :: "string \<Rightarrow> error + Time" where
  "parseClean clean =
     (case Parse dateFormat clean of Inl err \<Rightarrow> Inl FailedToParseDate | Inr date \<Rightarrow> Inr date)"

function parseDate :: "string \<Rightarrow> error + Time" where
  "parseDate s =
     (if length s = 9 then parseClean (take 2 s @ take 2 (drop 2 s) @ drop 5 s)
      else if length s = 10 then parseClean (take 2 s @ take 2 (drop 3 s) @ drop 6 s)
      else if length s = 11 then
        (let undup = replaceFirst ''1/'' ''1'' s
         in if length undup = 10 then parseDate undup else Inl (UnexpectedDateFormat s))
      else Inl (UnexpectedDateFormat s))"
  by pat_completeness auto
termination
  by (relation "measure (\<lambda>s. if length s = 11 then 1 else 0)") auto

definition parseTime :: "string \<Rightarrow> string \<Rightarrow> error + Time" where
  "parseTime sdate stime =
     (let s = sdate @ stime in
      case Parse timeFormat s of
        Inr t \<Rightarrow> Inr t
      | Inl err \<Rightarrow> (case Parse timeFormat2 s of Inr t \<Rightarrow> Inr t | Inl err2 \<Rightarrow> Inl err2))"

text \<open>\<open>strings.Index\<close>: the position of the first occurrence, if any.\<close>

fun Index :: "string \<Rightarrow> string \<Rightarrow> nat option" where
  "Index [] substr = None"
| "Index (c # cs) substr =
     (if take (length substr) (c # cs) = substr then Some 0
      else map_option Suc (Index cs substr))"

text \<open>
  The rule for eleven characters as the specification words it: the first occurrence of the
  two characters \<open>"1/"\<close> is removed, and the result is parsed when it has ten characters.
\<close>

fun removeFirst :: "string \<Rightarrow> string \<Rightarrow> string" where
  "removeFirst old [] = []"
| "removeFirst old (c # cs) =
     (if take (length old) (c # cs) = old then drop (length old) (c # cs)
      else c # removeFirst old cs)"

definition parseDate11_spec :: "string \<Rightarrow> error + Time" where
  "parseDate11_spec s =
     (let r = removeFirst ''1/'' s
      in if length r = 10 then parseDate r else Inl (UnexpectedDateFormat s))"

record Entry =
  date :: Time
  activity :: string
  inTime :: "Time option"
  outTime :: "Time option"

text \<open>The zero \<open>Entry\<close> that \<open>make([]Entry, n)\<close> fills the slice with.\<close>

definition emptyEntry :: Entry where
  "emptyEntry = \<lparr>date = zeroTime, activity = [], inTime = None, outTime = None\<rparr>"

section \<open>The grid skeleton\<close>

text \<open>
  \<open>Rows\<close> and \<open>Cols\<close> are slices of pointers to structs that are allocated one by one and
  never shared, so a slice is modelled by the list of the structs, and a method that
  updates them in place returns the updated list.
\<close>

record Row =
  RowNum :: int
  Top :: int
  Bottom :: int

record Col =
  ColNum :: int
  Left :: int
  Right :: int

record Skeleton =
  W :: int
  H :: int
  Rows :: "Row list"
  Cols :: "Col list"

fun Rows_Find :: "Row list \<Rightarrow> int \<Rightarrow> error + int" where
  "Rows_Find [] y = Inl ErrNotFound"
| "Rows_Find (r # rs) y =
     (if y \<ge> Top r \<and> y \<le> Bottom r then Inr (RowNum r) else Rows_Find rs y)"

definition Rows_Shift :: "Row list \<Rightarrow> int \<Rightarrow> Row list" where
  "Rows_Shift rs offset = map (\<lambda>r. r\<lparr>Top := Top r + offset, Bottom := Bottom r + offset\<rparr>) rs"

fun Cols_Find :: "Col list \<Rightarrow> int \<Rightarrow> error + int" where
  "Cols_Find [] x = Inl ErrNotFound"
| "Cols_Find (c # cs) x =
     (if x \<ge> Left c \<and> x \<le> Right c then Inr (ColNum c) else Cols_Find cs x)"

definition Cols_Shift :: "Col list \<Rightarrow> int \<Rightarrow> Col list" where
  "Cols_Shift cs offset = map (\<lambda>c. c\<lparr>Left := Left c + offset, Right := Right c + offset\<rparr>) cs"

text \<open>Integer division of Go truncates towards zero: \<open>sdiv\<close>.\<close>

definition Split :: "Col \<Rightarrow> Col list" where
  "Split c =
     (let size = Right c - Left c;
          c1 = \<lparr>ColNum = ColNum c, Left = Left c, Right = Right c - size sdiv 2\<rparr>;
          c2 = \<lparr>ColNum = ColNum c + 1, Left = Right c1, Right = Right c\<rparr>
      in [c1, c2])"

section \<open>Images and the grid detector\<close>

datatype NRGBA = NRGBA "8 word" "8 word" "8 word" "8 word"

definition white :: NRGBA where
  "white = NRGBA 255 255 255 255"

definition black :: NRGBA where
  "black = NRGBA 0 0 0 255"

text \<open>
  A decoded \<open>*image.NRGBA\<close>: its bounds start at the origin; \<open>At\<close> outside the bounds is
  the zero colour, \<open>Set\<close> outside the bounds does nothing.
\<close>

record Image =
  Width :: int
  Height :: int
  Pix :: "int \<Rightarrow> int \<Rightarrow> NRGBA"

definition inBounds :: "Image \<Rightarrow> int \<Rightarrow> int \<Rightarrow> bool" where
  "inBounds img x y = (0 \<le> x \<and> x < Width img \<and> 0 \<le> y \<and> y < Height img)"

definition At :: "Image \<Rightarrow> int \<Rightarrow> int \<Rightarrow> NRGBA" where
  "At img x y = (if inBounds img x y then Pix img x y else NRGBA 0 0 0 0)"

definition Set_px :: "Image \<Rightarrow> int \<Rightarrow> int \<Rightarrow> NRGBA \<Rightarrow> Image" where
  "Set_px img x y c =
     (if inBounds img x y
      then img\<lparr>Pix := (\<lambda>x' y'. if x' = x \<and> y' = y then c else Pix img x' y')\<rparr>
      else img)"

function findRow0_from :: "Image \<Rightarrow> int \<Rightarrow> error + int" where
  "findRow0_from img y =
     (if y < Height img then
        (if At img 0 y \<noteq> white then Inr y else findRow0_from img (y + 1))
      else Inl FirstRowNotFound)"
  by pat_completeness auto
termination
  by (relation "measure (\<lambda>(img, y). nat (Height img - y))") auto

definition findRow0 :: "Image \<Rightarrow> error + int" where
  "findRow0 img = findRow0_from img 0"

function findCol0_from :: "Image \<Rightarrow> int \<Rightarrow> int \<Rightarrow> error + int" where
  "findCol0_from img row0 x =
     (if x < Width img then
        (if At img x row0 = black then Inr x else findCol0_from img row0 (x + 1))
      else Inl FirstColNotFound)"
  by pat_completeness auto
termination
  by (relation "measure (\<lambda>(img, row0, x). nat (Width img - x))") auto

definition findCol0 :: "Image \<Rightarrow> int \<Rightarrow> error + int" where
  "findCol0 img row0 = findCol0_from img row0 3"

definition maxHeight :: int where
  "maxHeight = 50"

text \<open>
  The loop of \<open>findRows\<close>: \<open>rows\<close> collected so far, the open row \<open>curr\<close> (here \<open>cur\<close>), the scan line
  \<open>y\<close>. A new \<open>Row\<close> has \<open>Bottom\<close> zero until it is closed.
\<close>

function findRows_loop :: "Image \<Rightarrow> int \<Rightarrow> int \<Rightarrow> Row list \<Rightarrow> Row \<Rightarrow> int \<Rightarrow> Row list" where
  "findRows_loop img xmax ymax rows cur y =
     (if y < ymax then
        (if At img xmax y \<noteq> black then
           (if y - Top cur > maxHeight then rows
            else findRows_loop img xmax ymax rows cur (y + 1))
         else
           (let rows' = rows @ [cur\<lparr>Bottom := y\<rparr>]
            in findRows_loop img xmax ymax rows'
                 \<lparr>RowNum = int (length rows'), Top = y, Bottom = 0\<rparr> (y + 1)))
      else rows)"
  by pat_completeness auto
termination
  by (relation "measure (\<lambda>(img, xmax, ymax, rows, cur, y). nat (ymax - y))") auto

definition findRows :: "Image \<Rightarrow> int \<Rightarrow> Row list" where
  "findRows img row0 =
     findRows_loop img (Width img - 5) (Height img) []
       \<lparr>RowNum = 0, Top = row0, Bottom = 0\<rparr> (row0 + 1)"

definition isCol :: "Image \<Rightarrow> int \<Rightarrow> int \<Rightarrow> bool" where
  "isCol img x y =
     list_all (\<lambda>i. At img (x + i) y = black \<and> At img (x - i) y = black \<and>
                   At img x (y + i) = black \<and> At img x (y - i) = black) [0, 1, 2, 3, 4]"

function findCols_loop :: "Image \<Rightarrow> int \<Rightarrow> int \<Rightarrow> Col list \<Rightarrow> Col \<Rightarrow> int \<Rightarrow> Col list" where
  "findCols_loop img row0 xmax cols cur x =
     (if x < xmax then
        (if \<not> isCol img x row0 then findCols_loop img row0 xmax cols cur (x + 1)
         else
           (let cols' = cols @ [cur\<lparr>Right := x\<rparr>]
            in if length cols' = 3 then cols'
               else findCols_loop img row0 xmax cols'
                      \<lparr>ColNum = int (length cols'), Left = x, Right = 0\<rparr> (x + 1)))
      else cols)"
  by pat_completeness auto
termination
  by (relation "measure (\<lambda>(img, row0, xmax, cols, cur, x). nat (xmax - x))") auto

definition findCols :: "Image \<Rightarrow> int \<Rightarrow> int \<Rightarrow> Col list" where
  "findCols img row0 col0 =
     findCols_loop img row0 (Width img) []
       \<lparr>ColNum = 0, Left = col0, Right = 0\<rparr> (col0 + 1)"

text \<open>\<open>clean\<close>: the line \<open>y = r.Top\<close> of every row and the line \<open>x = c.Right\<close> of every column.\<close>

definition clean :: "Image \<Rightarrow> Row list \<Rightarrow> Col list \<Rightarrow> Image" where
  "clean img rows cols =
     (let xmax = Width img; ymax = Height img;
          img1 = fold (\<lambda>r im. fold (\<lambda>x im'. Set_px im' x (Top r) white) [0..xmax - 1] im) rows img
      in fold (\<lambda>c im. fold (\<lambda>y im'. Set_px im' (Right c) y white) [0..ymax - 1] im) cols img1)"

text \<open>
  \<open>draw\<close> crops to \<open>image.Rect(cols[0].Left, rows[0].Top, cols[last].Right, rows[last].Bottom)\<close>
  and panics when there is no row or no column. Of the cropped image only the size is used
  further on: \<open>Dx\<close> and \<open>Dy\<close> of a rectangle whose corners \<open>image.Rect\<close> has put in order.
\<close>

definition draw :: "Row list \<Rightarrow> Col list \<Rightarrow> error + (int \<times> int)" where
  "draw rows cols =
     (if cols = [] \<or> rows = [] then Inl IndexOutOfRange
      else Inr (\<bar>Right (last cols) - Left (hd cols)\<bar>, \<bar>Bottom (last rows) - Top (hd rows)\<bar>))"

text \<open>
  \<open>prime\<close>, without the encoded bytes of the cropped image: the skeleton, shifted to the
  origin of the crop, the first column halved and the last column split.
\<close>

definition prime :: "Image \<Rightarrow> error + Skeleton" where
  "prime img =
     (case findRow0 img of Inl err \<Rightarrow> Inl err
      | Inr row0 \<Rightarrow>
     (case findCol0 img row0 of Inl err \<Rightarrow> Inl err
      | Inr col0 \<Rightarrow>
        (let rows = findRows img row0;
             cols = findCols img row0 col0
         in case draw rows cols of Inl err \<Rightarrow> Inl err
            | Inr (dx, dy) \<Rightarrow>
              (let rows = Rows_Shift rows (- Top (hd rows));
                   cols = Cols_Shift cols (- Left (hd cols));
                   cols = cols[0 := (cols ! 0)\<lparr>Right := Right (cols ! 0) sdiv 2\<rparr>];
                   cols = butlast cols @ Split (last cols)
               in Inr \<lparr>W = dx, H = dy, Rows = rows, Cols = cols\<rparr>))))"

section \<open>Assigning recognised words to cells\<close>

text \<open>
  The bounding box of a detection holds \<open>float64\<close> fractions of the image size; they are
  modelled by rationals, and \<open>int(x)\<close> truncates towards zero. The products and sums are
  exact here, where \<open>float64\<close> rounds them: the two agree when the fractions and the
  intermediate values are representable, and can differ by one pixel otherwise. The
  properties below take the centre of a box as given or use boxes that are exact.
\<close>

record BoundingBox =
  bLeft :: rat
  bTop :: rat
  bWidth :: rat
  bHeight :: rat

record TextDetection =
  Type :: "string option"
  DetectedText :: string
  Geometry :: BoundingBox

definition truncate :: "rat \<Rightarrow> int" where
  "truncate q = (if q \<ge> 0 then \<lfloor>q\<rfloor> else \<lceil>q\<rceil>)"

definition center :: "BoundingBox \<Rightarrow> Skeleton \<Rightarrow> int \<times> int" where
  "center box sk =
     (let w = of_int (W sk); h = of_int (H sk);
          xmid = bLeft box * w + bWidth box * w / 2;
          ymid = bTop box * h + bHeight box * h / 2
      in (truncate xmid, truncate ymid))"

text \<open>The body of the loop of \<open>scan\<close> over the sorted detections, with the entries so far.\<close>

fun scan_loop :: "TextDetection list \<Rightarrow> Skeleton \<Rightarrow> Entry list \<Rightarrow> error + Entry list" where
  "scan_loop [] sk entries = Inr entries"
| "scan_loop (d # ds) sk entries =
     (if Type d \<noteq> Some ''WORD'' then scan_loop ds sk entries
      else case center (Geometry d) sk of (cx, cy) \<Rightarrow>
       (case Cols_Find (Cols sk) cx of Inl err \<Rightarrow> scan_loop ds sk entries
        | Inr c \<Rightarrow>
       (case Rows_Find (Rows sk) cy of Inl err \<Rightarrow> scan_loop ds sk entries
        | Inr r \<Rightarrow>
          if r < 0 \<or> r \<ge> int (length entries) then Inl IndexOutOfRange
          else
            (let txt = DetectedText d; e = entries ! nat r in
             if c = 0 then
               (case parseDate txt of Inl err \<Rightarrow> Inl err
                | Inr dt \<Rightarrow> scan_loop ds sk (entries[nat r := e\<lparr>date := dt\<rparr>]))
             else if c = 1 then
               scan_loop ds sk (entries[nat r := e\<lparr>activity := activity e @ txt\<rparr>])
             else if c = 2 then
               (case parseTime (Format (date e) dateFormat) txt of Inl err \<Rightarrow> Inl err
                | Inr t \<Rightarrow> scan_loop ds sk (entries[nat r := e\<lparr>inTime := Some t\<rparr>]))
             else if c = 3 then
               (case parseTime (Format (date e) dateFormat) txt of Inl err \<Rightarrow> Inl err
                | Inr t \<Rightarrow> scan_loop ds sk (entries[nat r := e\<lparr>outTime := Some t\<rparr>]))
             else scan_loop ds sk entries))))"

text \<open>
  \<open>scan\<close>: the detections sorted by the left edge of their boxes (an insertion sort, as
  \<open>sort.Slice\<close> is for up to twelve elements), then the loop over fresh entries.
  \<open>sort.Slice\<close> promises no order among detections with equal left edges; the model keeps
  them in the order given. The properties below are about the loop over any order.
\<close>

definition scan :: "TextDetection list \<Rightarrow> Skeleton \<Rightarrow> error + Entry list" where
  "scan dets sk =
     scan_loop (sort_key (\<lambda>d. bLeft (Geometry d)) dets) sk
       (replicate (length (Rows sk)) emptyEntry)"

section \<open>Analytics\<close>

text \<open>The loop of \<open>average\<close>: the running \<open>total\<close> and \<open>count\<close> (here \<open>tot\<close> and \<open>cnt\<close>), both \<open>int64\<close>.\<close>

fun average_loop ::
  "Entry list \<Rightarrow> (Entry \<Rightarrow> Time option) \<Rightarrow> Duration \<Rightarrow> int \<Rightarrow> Duration \<times> int" where
  "average_loop [] extractor tot cnt = (tot, cnt)"
| "average_loop (e # es) extractor tot cnt =
     (case extractor e of
        None \<Rightarrow> average_loop es extractor tot cnt
      | Some v \<Rightarrow>
          (let d = Hour_of v * Hour + Minute_of v * Minute
           in average_loop es extractor (wrap64 (tot + d)) (wrap64 (cnt + 1))))"

definition average :: "Entry list \<Rightarrow> (Entry \<Rightarrow> Time option) \<Rightarrow> Duration \<Rightarrow> Duration" where
  "average entries extractor def =
     (case average_loop entries extractor 0 0 of
        (tot, cnt) \<Rightarrow>
          if cnt = 0 then def
          else Round (tot sdiv cnt) (15 * Minute))"

definition averageIn :: "Entry list \<Rightarrow> Duration" where
  "averageIn entries = average entries inTime (9 * Hour)"

definition averageOut :: "Entry list \<Rightarrow> Duration" where
  "averageOut entries = average entries outTime (17 * Hour)"

definition fixEntry :: "Entry \<Rightarrow> Duration \<Rightarrow> Duration \<Rightarrow> error + string" where
  "fixEntry e avgIn avgOut =
     (if inTime e = None \<and> outTime e = None then Inl BothTimesEmpty
      else if inTime e \<noteq> None \<and> outTime e \<noteq> None then Inl BothTimesNonEmpty
      else
        (let pdate = Format (date e) prettyDate;
             (pin, pout) =
               (case inTime e of
                  Some i \<Rightarrow> (Format i prettyTime, Format (Add (date e) avgOut) prettyTime)
                | None \<Rightarrow>
                    (Format (Add (date e) avgIn) prettyTime,
                     (case outTime e of Some ou \<Rightarrow> Format ou prettyTime | None \<Rightarrow> [])))
         in Inr (pdate @ '': arrived at '' @ pin @ '', left at '' @ pout)))"

record Magic =
  Problems :: "string list"
  Fixes :: "string list"

text \<open>The loop of \<open>domagic\<close>: the problems and the fixes appended so far.\<close>

fun domagic_loop ::
  "Entry list \<Rightarrow> Duration \<Rightarrow> Duration \<Rightarrow> string list \<Rightarrow> string list
     \<Rightarrow> string list \<times> string list" where
  "domagic_loop [] avgIn avgOut problems fixes = (problems, fixes)"
| "domagic_loop (e # es) avgIn avgOut problems fixes =
     (if activity e = [] then domagic_loop es avgIn avgOut problems fixes
      else
        (let datefmt = Format (date e) prettyDate in
         if activity e = ''UnclosedDay'' then
           (let problems' = problems @ [datefmt @ '': Unclosed day''] in
            case fixEntry e avgIn avgOut of
              Inl err \<Rightarrow> domagic_loop es avgIn avgOut problems' fixes
            | Inr fix \<Rightarrow> domagic_loop es avgIn avgOut problems' (fixes @ [fix]))
         else if activity e = ''Vacation/Una'' then
           domagic_loop es avgIn avgOut (problems @ [datefmt @ '': Missing report'']) fixes
         else
           domagic_loop es avgIn avgOut (problems @ [datefmt @ '': '' @ activity e]) fixes))"

definition domagic :: "Entry list \<Rightarrow> Magic" where
  "domagic entries =
     (let avgIn = averageIn entries; avgOut = averageOut entries
      in case domagic_loop entries avgIn avgOut [] [] of
           (problems, fixes) \<Rightarrow> \<lparr>Problems = problems, Fixes = fixes\<rparr>)"

text \<open>The specification's name for the two errors of \<open>fixEntry\<close>.\<close>

definition AmbiguousEntry :: "error \<Rightarrow> bool" where
  "AmbiguousEntry err = (err = BothTimesEmpty \<or> err = BothTimesNonEmpty)"

text \<open>
  The report as the specification words it, entry by entry: the problem an entry
  contributes, and the fix it contributes.
\<close>

definition problem_spec :: "Entry \<Rightarrow> string list" where
  "problem_spec e =
     (if activity e = [] then []
      else if activity e = ''UnclosedDay'' then [Format (date e) prettyDate @ '': Unclosed day'']
      else if activity e = ''Vacation/Una'' then [Format (date e) prettyDate @ '': Missing report'']
      else [Format (date e) prettyDate @ '': '' @ activity e])"

definition fix_spec :: "Duration \<Rightarrow> Duration \<Rightarrow> Entry \<Rightarrow> string list" where
  "fix_spec avgIn avgOut e =
     (if activity e = ''UnclosedDay'' then
        (case fixEntry e avgIn avgOut of Inl err \<Rightarrow> [] | Inr fix \<Rightarrow> [fix])
      else [])"

text \<open>
  The shape of what the detector collects: rows (columns) numbered from \<open>n\<close>, the first
  starting at \<open>t\<close>, each of positive extent and each starting where the one before ends.
\<close>

fun rows_from :: "int \<Rightarrow> int \<Rightarrow> Row list \<Rightarrow> bool" where
  "rows_from n t [] = True"
| "rows_from n t (r # rs) =
     (RowNum r = n \<and> Top r = t \<and> Top r < Bottom r \<and> rows_from (n + 1) (Bottom r) rs)"

fun cols_from :: "int \<Rightarrow> int \<Rightarrow> Col list \<Rightarrow> bool" where
  "cols_from n l [] = True"
| "cols_from n l (c # cs) =
     (ColNum c = n \<and> Left c = l \<and> Left c < Right c \<and> cols_from (n + 1) (Right c) cs)"

section \<open>Example images\<close>

text \<open>
  Three images of 24 by 16 pixels, white but for black lines: horizontal lines at
  \<open>y = 4, 9, 14\<close> in all of them, and vertical lines at \<open>x = 8, 13, 18\<close> (three divider
  marks on the first horizontal line), at \<open>x = 8\<close> only (one mark), and at \<open>x = 4, 13, 18\<close>
  (the first mark one pixel right of the origin column 3).
\<close>

definition grid_image :: Image where
  "grid_image = \<lparr>Width = 24, Height = 16,
     Pix = (\<lambda>x y. if y = 4 \<or> y = 9 \<or> y = 14 \<or> x = 8 \<or> x = 13 \<or> x = 18
                   then black else white)\<rparr>"

definition one_marker_image :: Image where
  "one_marker_image = \<lparr>Width = 24, Height = 16,
     Pix = (\<lambda>x y. if y = 4 \<or> y = 9 \<or> y = 14 \<or> x = 8 then black else white)\<rparr>"

definition thick_image :: Image where
  "thick_image = \<lparr>Width = 24, Height = 16,
     Pix = (\<lambda>x y. if y = 4 \<or> y = 9 \<or> y = 14 \<or> x = 4 \<or> x = 13 \<or> x = 18
                   then black else white)\<rparr>"



text \<open>
  A recognised word \<open>15.04\<close> whose box has its centre at pixel (11, 2) of a cropped image
  of 15 by 10 pixels, and the skeleton of the image with three marks: the word lies in the
  In column (column 2) of row 0.
\<close>

definition one_time_word :: TextDetection where
  "one_time_word = \<lparr>Type = Some ''WORD'', DetectedText = ''15.04'',
     Geometry = \<lparr>bLeft = 5 / 8, bTop = 1 / 8, bWidth = 1 / 4, bHeight = 1 / 4\<rparr>\<rparr>"

definition grid_skeleton :: Skeleton where
  "grid_skeleton = \<lparr>W = 15, H = 10,
       Rows = [\<lparr>RowNum = 0, Top = 0, Bottom = 5\<rparr>, \<lparr>RowNum = 1, Top = 5, Bottom = 10\<rparr>],
       Cols = [\<lparr>ColNum = 0, Left = 0, Right = 2\<rparr>, \<lparr>ColNum = 1, Left = 5, Right = 10\<rparr>,
               \<lparr>ColNum = 2, Left = 10, Right = 13\<rparr>, \<lparr>ColNum = 3, Left = 13, Right = 15\<rparr>]\<rparr>"

section \<open>Verified properties\<close>

subsection \<open>Dates of eleven characters\<close>

lemma Index_bound: "Index s old = Some i \<Longrightarrow> i + length old \<le> length s"
proof (induction s arbitrary: i)
  case Nil
  then show ?case by simp
next
  case (Cons c cs)
  show ?case
  proof (cases "take (length old) (c # cs) = old")
    case True
    then have "length (take (length old) (c # cs)) = length old"
      by simp
    then have "length old \<le> length (c # cs)"
      by simp
    with True Cons.prems show ?thesis by simp
  next
    case False
    with Cons.prems obtain j where "Index cs old = Some j" "i = Suc j"
      by auto
    with Cons.IH [of j] show ?thesis by simp
  qed
qed

lemma replaceFirst_Index:
  "replaceFirst ''1/'' ''1'' s =
     (case Index s ''1/'' of None \<Rightarrow> s | Some i \<Rightarrow> take (i + 1) s @ drop (i + 2) s)"
proof (induction s)
  case Nil
  then show ?case by simp
next
  case (Cons c cs)
  show ?case
  proof (cases "take (length ''1/'') (c # cs) = ''1/''")
    case True
    then have r: "replaceFirst ''1/'' ''1'' (c # cs) = ''1'' @ drop (length ''1/'') (c # cs)"
      and i: "Index (c # cs) ''1/'' = Some 0"
      by (simp_all only: replaceFirst.simps Index.simps if_True simp_thms)
    from True have "c = CHR ''1''" by (cases cs) auto
    with r i show ?thesis by simp
  next
    case False
    then have r: "replaceFirst ''1/'' ''1'' (c # cs) = c # replaceFirst ''1/'' ''1'' cs"
      and i: "Index (c # cs) ''1/'' = map_option Suc (Index cs ''1/'')"
      by (simp_all only: replaceFirst.simps Index.simps if_False)
    show ?thesis
      unfolding r i Cons.IH by (cases "Index cs ''1/''") simp_all
  qed
qed

lemma parseDate_10:
  "length u = 10 \<Longrightarrow> parseDate u = parseClean (take 2 u @ take 2 (drop 3 u) @ drop 6 u)"
  by (subst parseDate.simps) simp

text \<open>
  C2, as the code has it. For a string of eleven characters \<open>parseDate\<close> replaces the first
  occurrence of \<open>"1/"\<close> by \<open>"1"\<close>, that is, it deletes the slash of that occurrence and
  keeps the \<open>1\<close>. When \<open>"1/"\<close> occurs, at position \<open>i\<close>, the result has ten characters and is
  parsed by the rule for ten characters; when it does not occur, \<open>parseDate\<close> fails with the
  unexpected-date-format error for the original string.
\<close>

theorem parseDate_11:
  assumes "length s = 11"
  shows "parseDate s =
     (case Index s ''1/'' of
        None \<Rightarrow> Inl (UnexpectedDateFormat s)
      | Some i \<Rightarrow>
          (let u = take (i + 1) s @ drop (i + 2) s
           in parseClean (take 2 u @ take 2 (drop 3 u) @ drop 6 u)))"
proof (cases "Index s ''1/''")
  case None
  then have "replaceFirst ''1/'' ''1'' s = s"
    by (simp add: replaceFirst_Index)
  with assms None show ?thesis by (subst parseDate.simps) simp
next
  case (Some i)
  then have b: "i + 2 \<le> length s"
    using Index_bound [of s "''1/''" i] by simp
  define u where "u = take (i + 1) s @ drop (i + 2) s"
  have r: "replaceFirst ''1/'' ''1'' s = u"
    using Some by (simp add: replaceFirst_Index u_def)
  have len: "length u = 10"
    using assms b by (simp add: u_def)
  have "parseDate s = parseDate u"
    using assms r len by (subst parseDate.simps) simp
  also have "\<dots> = parseClean (take 2 u @ take 2 (drop 3 u) @ drop 6 u)"
    by (rule parseDate_10 [OF len])
  finally show ?thesis
    using Some unfolding u_def by (simp only: option.case Let_def)
qed

text \<open>The rule at \<open>"1/1/01/2023"\<close>: the slash after the first \<open>1\<close> goes, the day is 11.\<close>

theorem parseDate_11_witness:
  "length ''1/1/01/2023'' = 11 \<and> parseDate ''1/1/01/2023'' = Inr (Date 2023 1 11 0 0 0 0)"
proof -
  have i: "Index ''1/1/01/2023'' ''1/'' = Some 0" by simp
  have p: "parseClean ''11012023'' = Inr (Date 2023 1 11 0 0 0 0)" by code_simp
  have l: "length ''1/1/01/2023'' = 11" by simp
  show ?thesis
    using parseDate_11 [OF l] i p by (simp add: Let_def)
qed

text \<open>
  C2 as stated fails: removing both characters of \<open>"1/"\<close> from \<open>"1/1/01/2023"\<close> leaves nine
  characters, so the stated rule rejects the string, while \<open>parseDate\<close> reads 11 January 2023.
\<close>

theorem parseDate_11_counterexample:
  "parseDate ''1/1/01/2023'' = Inr (Date 2023 1 11 0 0 0 0) \<and>
   parseDate11_spec ''1/1/01/2023'' = Inl (UnexpectedDateFormat ''1/1/01/2023'')"
  by code_simp

subsection \<open>Shifting rows and columns\<close>

lemma Rows_Shift_Shift: "Rows_Shift (Rows_Shift rs a) b = Rows_Shift rs (a + b)"
  by (simp add: Rows_Shift_def)

lemma Cols_Shift_Shift: "Cols_Shift (Cols_Shift cs a) b = Cols_Shift cs (a + b)"
  by (simp add: Cols_Shift_def)

lemma Rows_Shift_0: "Rows_Shift rs 0 = rs"
  by (simp add: Rows_Shift_def)

lemma Cols_Shift_0: "Cols_Shift cs 0 = cs"
  by (simp add: Cols_Shift_def)

text \<open>
  C5, as the code has it. \<open>Shift\<close> adds the offset to every coordinate, so two shifts add up:
  shifting by \<open>a\<close> and then by \<open>b\<close> is shifting by \<open>a + b\<close>, and a second shift by the same
  offset moves every coordinate once more. What does not change anything is to rebase
  again: after the rows are shifted by minus the first \<open>Top\<close> (the columns by minus the first
  \<open>Left\<close>), the first \<open>Top\<close> (\<open>Left\<close>) is zero, and the shift by minus that is the identity.
\<close>

theorem Shift_cumulative:
  "Rows_Shift (Rows_Shift rs a) b = Rows_Shift rs (a + b) \<and>
   Cols_Shift (Cols_Shift cs a) b = Cols_Shift cs (a + b) \<and>
   (rs \<noteq> [] \<longrightarrow>
      (let rs' = Rows_Shift rs (- Top (hd rs)) in Rows_Shift rs' (- Top (hd rs')) = rs')) \<and>
   (cs \<noteq> [] \<longrightarrow>
      (let cs' = Cols_Shift cs (- Left (hd cs)) in Cols_Shift cs' (- Left (hd cs')) = cs'))"
proof -
  have r: "Rows_Shift rs' (- Top (hd rs')) = rs'"
    if "rs \<noteq> []" and "rs' = Rows_Shift rs (- Top (hd rs))" for rs'
  proof -
    from that have "Top (hd rs') = 0"
      by (cases rs) (simp_all add: Rows_Shift_def)
    then show ?thesis by (simp add: Rows_Shift_0)
  qed
  have c: "Cols_Shift cs' (- Left (hd cs')) = cs'"
    if "cs \<noteq> []" and "cs' = Cols_Shift cs (- Left (hd cs))" for cs'
  proof -
    from that have "Left (hd cs') = 0"
      by (cases cs) (simp_all add: Cols_Shift_def)
    then show ?thesis by (simp add: Cols_Shift_0)
  qed
  show ?thesis
    using r c by (simp add: Rows_Shift_Shift Cols_Shift_Shift Let_def)
qed

text \<open>A row at 4..9 and a column at 3..8: shifted back and forth, and rebased twice.\<close>

theorem Shift_cumulative_witness:
  "Rows_Shift (Rows_Shift [\<lparr>RowNum = 0, Top = 4, Bottom = 9\<rparr>] (- 4)) 4
     = [\<lparr>RowNum = 0, Top = 4, Bottom = 9\<rparr>] \<and>
   Rows_Shift (Rows_Shift [\<lparr>RowNum = 0, Top = 4, Bottom = 9\<rparr>] (- 4)) 0
     = [\<lparr>RowNum = 0, Top = 0, Bottom = 5\<rparr>] \<and>
   Cols_Shift (Cols_Shift [\<lparr>ColNum = 0, Left = 3, Right = 8\<rparr>] (- 3)) 0
     = [\<lparr>ColNum = 0, Left = 0, Right = 5\<rparr>]"
  using Shift_cumulative [of "[\<lparr>RowNum = 0, Top = 4, Bottom = 9\<rparr>]" "- 4" 4
      "[\<lparr>ColNum = 0, Left = 3, Right = 8\<rparr>]"]
    Shift_cumulative [of "[\<lparr>RowNum = 0, Top = 4, Bottom = 9\<rparr>]" "- 4" 0
      "[\<lparr>ColNum = 0, Left = 3, Right = 8\<rparr>]"]
  by (simp add: Rows_Shift_def Cols_Shift_def)

text \<open>
  C5 as stated fails: the row at 4..9 shifted by \<open>-4\<close> lies at 0..5, and shifted by \<open>-4\<close>
  again it lies at \<open>-4\<close>..1.
\<close>

theorem Shift_idempotent_counterexample:
  "Rows_Shift (Rows_Shift [\<lparr>RowNum = 0, Top = 4, Bottom = 9\<rparr>] (- 4)) (- 4)
     = [\<lparr>RowNum = 0, Top = - 4, Bottom = 1\<rparr>] \<and>
   Rows_Shift [\<lparr>RowNum = 0, Top = 4, Bottom = 9\<rparr>] (- 4)
     = [\<lparr>RowNum = 0, Top = 0, Bottom = 5\<rparr>]"
  by (simp add: Rows_Shift_def)

subsection \<open>Fixes and the report\<close>

text \<open>
  C8. \<open>fixEntry\<close> fails exactly when both or neither of the two times are set, and then
  with one of the two errors the specification calls \<open>AmbiguousEntry\<close>. With only the
  arrival set, the text is the date, the arrival, and the departure taken from the date
  plus the average departure; with only the departure set, the arrival is taken from the
  date plus the average arrival.
\<close>

theorem fixEntry_cases:
  "((\<exists>err. fixEntry e avgIn avgOut = Inl err) \<longleftrightarrow> ((inTime e = None) = (outTime e = None))) \<and>
   (\<forall>err. fixEntry e avgIn avgOut = Inl err \<longrightarrow> AmbiguousEntry err) \<and>
   (\<forall>i. inTime e = Some i \<and> outTime e = None \<longrightarrow>
      fixEntry e avgIn avgOut =
        Inr (Format (date e) prettyDate @ '': arrived at '' @ Format i prettyTime
             @ '', left at '' @ Format (Add (date e) avgOut) prettyTime)) \<and>
   (\<forall>ou. inTime e = None \<and> outTime e = Some ou \<longrightarrow>
      fixEntry e avgIn avgOut =
        Inr (Format (date e) prettyDate @ '': arrived at '' @ Format (Add (date e) avgIn) prettyTime
             @ '', left at '' @ Format ou prettyTime))"
  by (cases "inTime e"; cases "outTime e") (simp_all add: fixEntry_def AmbiguousEntry_def)

text \<open>The example of C8: only the arrival 08:47 on 5 January 2023, average departure 17:00.\<close>

theorem fixEntry_cases_witness:
  "fixEntry \<lparr>date = Date 2023 1 5 0 0 0 0, activity = ''UnclosedDay'',
             inTime = Some (Date 2023 1 5 8 47 0 0), outTime = None\<rparr> (9 * Hour) (17 * Hour)
     = Inr ''05/01: arrived at 08:47, left at 17:00''"
proof -
  let ?e = "\<lparr>date = Date 2023 1 5 0 0 0 0, activity = ''UnclosedDay'',
             inTime = Some (Date 2023 1 5 8 47 0 0), outTime = None\<rparr>"
  have d: "Format (Date 2023 1 5 0 0 0 0) prettyDate = ''05/01''" by code_simp
  have i: "Format (Date 2023 1 5 8 47 0 0) prettyTime = ''08:47''" by code_simp
  have ou: "Format (Add (Date 2023 1 5 0 0 0 0) (17 * Hour)) prettyTime = ''17:00''" by code_simp
  show ?thesis
    using fixEntry_cases [of ?e "9 * Hour" "17 * Hour"] d i ou by simp
qed

lemma domagic_loop_eq:
  "domagic_loop es avgIn avgOut ps fs =
     (ps @ concat (map problem_spec es), fs @ concat (map (fix_spec avgIn avgOut) es))"
proof (induction es arbitrary: ps fs)
  case Nil
  then show ?case by simp
next
  case (Cons e es)
  show ?case
    by (cases "fixEntry e avgIn avgOut")
      (simp_all add: Cons.IH problem_spec_def fix_spec_def Let_def)
qed

text \<open>
  C7. \<open>domagic\<close> always returns a report. Its problems are, in the order of the entries,
  nothing for an empty activity, the date and \<open>Unclosed day\<close> for \<open>UnclosedDay\<close>, the date
  and \<open>Missing report\<close> for \<open>Vacation/Una\<close>, and the date and the activity as it is for any
  other. Its fixes are those of the \<open>UnclosedDay\<close> entries for which \<open>fixEntry\<close> succeeds; a
  failing \<open>fixEntry\<close> contributes nothing and stops nothing.
\<close>

theorem domagic_report:
  "domagic es =
     \<lparr>Problems = concat (map problem_spec es),
      Fixes = concat (map (fix_spec (averageIn es) (averageOut es)) es)\<rparr>"
  by (simp add: domagic_def domagic_loop_eq Let_def)

text \<open>
  An unclosed day with only an arrival, a missing report, an unclosed day with both times
  (no fix can be made), a normal day and a day with another activity.
\<close>

theorem domagic_report_witness:
  "domagic
     [\<lparr>date = Date 2023 1 5 0 0 0 0, activity = ''UnclosedDay'',
       inTime = Some (Date 2023 1 5 8 47 0 0), outTime = None\<rparr>,
      \<lparr>date = Date 2023 1 6 0 0 0 0, activity = ''Vacation/Una'',
       inTime = None, outTime = None\<rparr>,
      \<lparr>date = Date 2023 1 7 0 0 0 0, activity = ''UnclosedDay'',
       inTime = Some (Date 2023 1 7 9 0 0 0), outTime = Some (Date 2023 1 7 17 0 0 0)\<rparr>,
      \<lparr>date = Date 2023 1 8 0 0 0 0, activity = [],
       inTime = Some (Date 2023 1 8 9 0 0 0), outTime = Some (Date 2023 1 8 17 0 0 0)\<rparr>,
      \<lparr>date = Date 2023 1 9 0 0 0 0, activity = ''Sick'',
       inTime = None, outTime = None\<rparr>]
   = \<lparr>Problems = [''05/01: Unclosed day'', ''06/01: Missing report'', ''07/01: Unclosed day'',
                   ''09/01: Sick''],
      Fixes = [''05/01: arrived at 08:47, left at 17:00'']\<rparr>"
  (is "domagic ?es = ?r")
proof -
  have "\<lparr>Problems = concat (map problem_spec ?es),
         Fixes = concat (map (fix_spec (averageIn ?es) (averageOut ?es)) ?es)\<rparr> = ?r"
    by code_simp
  with domagic_report [of ?es] show ?thesis by (rule trans)
qed

subsection \<open>What the detector collects\<close>

declare findRows_loop.simps [simp del] findCols_loop.simps [simp del]
  findRow0_from.simps [simp del] findCol0_from.simps [simp del]

lemma rows_from_append:
  "rows_from n t (rs @ [r]) =
     (rows_from n t rs \<and> RowNum r = n + int (length rs) \<and>
      Top r = (if rs = [] then t else Bottom (last rs)) \<and> Top r < Bottom r)"
  by (induction rs arbitrary: n t) auto

lemma cols_from_append:
  "cols_from n l (cs @ [c]) =
     (cols_from n l cs \<and> ColNum c = n + int (length cs) \<and>
      Left c = (if cs = [] then l else Right (last cs)) \<and> Left c < Right c)"
  by (induction cs arbitrary: n l) auto

lemma findRows_loop_ok:
  "rows_from 0 row0 rows \<Longrightarrow> RowNum cur = int (length rows) \<Longrightarrow>
   Top cur = (if rows = [] then row0 else Bottom (last rows)) \<Longrightarrow> Top cur < y \<Longrightarrow>
   rows_from 0 row0 (findRows_loop img xmax ymax rows cur y)"
proof (induction img xmax ymax rows cur y rule: findRows_loop.induct)
  case (1 img xmax ymax rows cur y)
  show ?case
  proof (cases "y < ymax")
    case False
    with "1.prems" show ?thesis by (subst findRows_loop.simps) simp
  next
    case lt: True
    show ?thesis
    proof (cases "At img xmax y \<noteq> black")
      case nb: True
      show ?thesis
      proof (cases "y - Top cur > maxHeight")
        case True
        with lt nb "1.prems" show ?thesis by (subst findRows_loop.simps) simp
      next
        case False
        have "rows_from 0 row0 (findRows_loop img xmax ymax rows cur (y + 1))"
          using "1.IH"(1) [OF lt nb False] "1.prems" by simp
        with lt nb False show ?thesis by (subst findRows_loop.simps) simp
      qed
    next
      case b: False
      define rows' where "rows' = rows @ [cur\<lparr>Bottom := y\<rparr>]"
      define cur' where "cur' = \<lparr>RowNum = int (length rows'), Top = y, Bottom = 0\<rparr>"
      have r: "rows_from 0 row0 rows'"
        using "1.prems" by (simp add: rows'_def rows_from_append)
      have "rows_from 0 row0 (findRows_loop img xmax ymax rows' cur' (y + 1))"
        using "1.IH"(2) [OF lt b rows'_def] r unfolding cur'_def
        by (simp add: rows'_def)
      with lt b show ?thesis
        by (subst findRows_loop.simps) (simp add: rows'_def cur'_def Let_def)
    qed
  qed
qed

lemma findRows_ok: "rows_from 0 row0 (findRows img row0)"
  unfolding findRows_def by (rule findRows_loop_ok) simp_all

lemma findCols_loop_ok:
  "cols_from 0 col0 cols \<Longrightarrow> ColNum cur = int (length cols) \<Longrightarrow>
   Left cur = (if cols = [] then col0 else Right (last cols)) \<Longrightarrow> Left cur < x \<Longrightarrow>
   length cols < 3 \<Longrightarrow>
   cols_from 0 col0 (findCols_loop img row0 xmax cols cur x) \<and>
   length (findCols_loop img row0 xmax cols cur x) \<le> 3"
proof (induction img row0 xmax cols cur x rule: findCols_loop.induct)
  case (1 img row0 xmax cols cur x)
  show ?case
  proof (cases "x < xmax")
    case False
    with "1.prems" show ?thesis by (subst (1 2) findCols_loop.simps) simp
  next
    case lt: True
    show ?thesis
    proof (cases "isCol img x row0")
      case nc: False
      have "cols_from 0 col0 (findCols_loop img row0 xmax cols cur (x + 1)) \<and>
            length (findCols_loop img row0 xmax cols cur (x + 1)) \<le> 3"
        using "1.IH"(1) [OF lt] nc "1.prems" by simp
      with lt nc show ?thesis by (subst (1 2) findCols_loop.simps) simp
    next
      case c: True
      define cols' where "cols' = cols @ [cur\<lparr>Right := x\<rparr>]"
      define cur' where "cur' = \<lparr>ColNum = int (length cols'), Left = x, Right = 0\<rparr>"
      have r: "cols_from 0 col0 cols'"
        using "1.prems" by (simp add: cols'_def cols_from_append)
      show ?thesis
      proof (cases "length cols' = 3")
        case True
        with lt c r show ?thesis
          by (subst (1 2) findCols_loop.simps) (simp add: cols'_def Let_def)
      next
        case False
        have nn: "\<not> \<not> isCol img x row0" using c by simp
        have l: "length cols' < 3" using False "1.prems" by (simp add: cols'_def)
        have "cols_from 0 col0 (findCols_loop img row0 xmax cols' cur' (x + 1)) \<and>
              length (findCols_loop img row0 xmax cols' cur' (x + 1)) \<le> 3"
          using "1.IH"(2) [OF lt nn cols'_def False] r l unfolding cur'_def
          by (simp add: cols'_def)
        with lt c False show ?thesis
          by (subst (1 2) findCols_loop.simps) (simp add: cols'_def cur'_def Let_def)
      qed
    qed
  qed
qed

lemma findCols_ok:
  "cols_from 0 col0 (findCols img row0 col0) \<and> length (findCols img row0 col0) \<le> 3"
  unfolding findCols_def by (rule findCols_loop_ok) simp_all

lemma rows_from_nums:
  "rows_from n t rs \<Longrightarrow> map RowNum rs = map (\<lambda>i. n + int i) [0..<length rs]"
proof (induction rs arbitrary: n t)
  case Nil
  then show ?case by simp
next
  case (Cons r rs)
  from Cons.prems have "rows_from (n + 1) (Bottom r) rs"
    by simp
  from Cons.IH [OF this] have "map RowNum rs = map (\<lambda>i. n + 1 + int i) [0..<length rs]" .
  also have "\<dots> = map (\<lambda>i. n + int i) (map Suc [0..<length rs])"
    by simp
  finally show ?case
    using Cons.prems by (simp add: upt_conv_Cons map_Suc_upt del: upt_Suc)
qed

lemma cols_from_nums:
  "cols_from n l cs \<Longrightarrow> map ColNum cs = map (\<lambda>i. n + int i) [0..<length cs]"
proof (induction cs arbitrary: n l)
  case Nil
  then show ?case by simp
next
  case (Cons c cs)
  from Cons.prems have "cols_from (n + 1) (Right c) cs"
    by simp
  from Cons.IH [OF this] have "map ColNum cs = map (\<lambda>i. n + 1 + int i) [0..<length cs]" .
  also have "\<dots> = map (\<lambda>i. n + int i) (map Suc [0..<length cs])"
    by simp
  finally show ?case
    using Cons.prems by (simp add: upt_conv_Cons map_Suc_upt del: upt_Suc)
qed

lemma rows_from_hd: "rows_from n t rs \<Longrightarrow> rs \<noteq> [] \<Longrightarrow> Top (hd rs) = t"
  by (cases rs) simp_all

lemma cols_from_hd: "cols_from n l cs \<Longrightarrow> cs \<noteq> [] \<Longrightarrow> Left (hd cs) = l"
  by (cases cs) simp_all

lemma rows_from_end: "rows_from n t rs \<Longrightarrow> rs \<noteq> [] \<Longrightarrow> t < Bottom (last rs)"
proof (induction rs arbitrary: n t)
  case Nil
  then show ?case by simp
next
  case (Cons r rs)
  then show ?case by (cases "rs = []") force+
qed

lemma cols_from_end: "cols_from n l cs \<Longrightarrow> cs \<noteq> [] \<Longrightarrow> l < Right (last cs)"
proof (induction cs arbitrary: n l)
  case Nil
  then show ?case by simp
next
  case (Cons c cs)
  then show ?case by (cases "cs = []") force+
qed

lemma rows_from_shift: "rows_from n t rs \<Longrightarrow> rows_from n (t + d) (Rows_Shift rs d)"
  by (induction rs arbitrary: n t) (simp_all add: Rows_Shift_def)

lemma last_Rows_Shift: "rs \<noteq> [] \<Longrightarrow> Bottom (last (Rows_Shift rs d)) = Bottom (last rs) + d"
  by (simp add: Rows_Shift_def last_map)

lemma rows_from_nth:
  "rows_from n t rs \<Longrightarrow> i < length rs \<Longrightarrow> Top (rs ! i) < Bottom (rs ! i)"
proof (induction rs arbitrary: n t i)
  case Nil
  then show ?case by simp
next
  case (Cons r rs)
  then show ?case by (cases i) auto
qed

lemma rows_from_adj:
  "rows_from n t rs \<Longrightarrow> Suc i < length rs \<Longrightarrow> Bottom (rs ! i) = Top (rs ! Suc i)"
proof (induction rs arbitrary: n t i)
  case Nil
  then show ?case by simp
next
  case (Cons r rs)
  show ?case
  proof (cases i)
    case 0
    with Cons.prems show ?thesis by (cases rs) auto
  next
    case (Suc k)
    with Cons.prems Cons.IH [of "n + 1" "Bottom r" k] show ?thesis by simp
  qed
qed

lemma Rows_Find_Inl: "Rows_Find rs y = Inl e \<Longrightarrow> e = ErrNotFound"
  by (induction rs) (auto split: if_splits)

lemma Cols_Find_Inl: "Cols_Find cs x = Inl e \<Longrightarrow> e = ErrNotFound"
  by (induction cs) (auto split: if_splits)

lemma Rows_Find_first:
  "Rows_Find rs y = Inr k \<Longrightarrow>
   \<exists>i<length rs. k = RowNum (rs ! i) \<and> Top (rs ! i) \<le> y \<and> y \<le> Bottom (rs ! i) \<and>
     (\<forall>j<i. \<not> (Top (rs ! j) \<le> y \<and> y \<le> Bottom (rs ! j)))"
proof (induction rs)
  case Nil
  then show ?case by simp
next
  case (Cons r rs)
  show ?case
  proof (cases "Top r \<le> y \<and> y \<le> Bottom r")
    case True
    with Cons.prems have "k = RowNum r" by simp
    with True show ?thesis by (intro exI [of _ 0]) simp
  next
    case False
    with Cons.prems have "Rows_Find rs y = Inr k" by auto
    from Cons.IH [OF this] obtain i where i: "i < length rs" "k = RowNum (rs ! i)"
      "Top (rs ! i) \<le> y" "y \<le> Bottom (rs ! i)"
      "\<forall>j<i. \<not> (Top (rs ! j) \<le> y \<and> y \<le> Bottom (rs ! j))"
      by blast
    have "\<forall>j<Suc i. \<not> (Top ((r # rs) ! j) \<le> y \<and> y \<le> Bottom ((r # rs) ! j))"
      using False i(5) by (auto simp: less_Suc_eq_0_disj)
    with i show ?thesis by (intro exI [of _ "Suc i"]) simp
  qed
qed

lemma Cols_Find_first:
  "Cols_Find cs x = Inr k \<Longrightarrow>
   \<exists>i<length cs. k = ColNum (cs ! i) \<and> Left (cs ! i) \<le> x \<and> x \<le> Right (cs ! i) \<and>
     (\<forall>j<i. \<not> (Left (cs ! j) \<le> x \<and> x \<le> Right (cs ! j)))"
proof (induction cs)
  case Nil
  then show ?case by simp
next
  case (Cons c cs)
  show ?case
  proof (cases "Left c \<le> x \<and> x \<le> Right c")
    case True
    with Cons.prems have "k = ColNum c" by simp
    with True show ?thesis by (intro exI [of _ 0]) simp
  next
    case False
    with Cons.prems have "Cols_Find cs x = Inr k" by auto
    from Cons.IH [OF this] obtain i where i: "i < length cs" "k = ColNum (cs ! i)"
      "Left (cs ! i) \<le> x" "x \<le> Right (cs ! i)"
      "\<forall>j<i. \<not> (Left (cs ! j) \<le> x \<and> x \<le> Right (cs ! j))"
      by blast
    have "\<forall>j<Suc i. \<not> (Left ((c # cs) ! j) \<le> x \<and> x \<le> Right ((c # cs) ! j))"
      using False i(5) by (auto simp: less_Suc_eq_0_disj)
    with i show ?thesis by (intro exI [of _ "Suc i"]) simp
  qed
qed

lemma Rows_Find_iff:
  "rows_from n t rs \<Longrightarrow>
   (\<exists>k. Rows_Find rs y = Inr k) \<longleftrightarrow> (rs \<noteq> [] \<and> t \<le> y \<and> y \<le> Bottom (last rs))"
proof (induction rs arbitrary: n t)
  case Nil
  then show ?case by simp
next
  case (Cons r rs)
  show ?case
  proof (cases "rs = []")
    case True
    with Cons.prems show ?thesis by auto
  next
    case False
    from Cons.prems have e: "Bottom r < Bottom (last rs)"
      using rows_from_end [of "n + 1" "Bottom r" rs] False by simp
    from Cons.prems Cons.IH [of "n + 1" "Bottom r"]
    have "(\<exists>k. Rows_Find rs y = Inr k) \<longleftrightarrow> (Bottom r \<le> y \<and> y \<le> Bottom (last rs))"
      using False by simp
    with Cons.prems e False show ?thesis by auto
  qed
qed

lemma sdiv2_nonneg: "0 \<le> a \<Longrightarrow> a sdiv 2 = a div (2::int)"
  by (simp add: signed_divide_int_def sgn_if)

subsection \<open>The skeleton of \<open>prime\<close>\<close>

lemma rows_from_mono:
  "rows_from n t rs \<Longrightarrow> i < j \<Longrightarrow> j < length rs \<Longrightarrow>
   Bottom (rs ! i) \<le> Top (rs ! j) \<and> (Suc i < j \<longrightarrow> Bottom (rs ! i) < Top (rs ! j))"
proof (induction j)
  case 0
  then show ?case by simp
next
  case (Suc j)
  have adj: "Bottom (rs ! j) = Top (rs ! Suc j)"
    using rows_from_adj [OF Suc.prems(1)] Suc.prems(3) by simp
  show ?case
  proof (cases "i = j")
    case True
    with adj show ?thesis by simp
  next
    case False
    with Suc.prems have "i < j" "j < length rs" by simp_all
    with Suc.IH Suc.prems(1) have "Bottom (rs ! i) \<le> Top (rs ! j)" by simp
    moreover have "Top (rs ! j) < Bottom (rs ! j)"
      using rows_from_nth [OF Suc.prems(1) \<open>j < length rs\<close>] .
    ultimately show ?thesis using adj by simp
  qed
qed

lemma prime_Inr:
  assumes "prime img = Inr sk"
  obtains row0 col0 rows cols where
    "findRow0 img = Inr row0" "findCol0 img row0 = Inr col0"
    "rows = findRows img row0" "cols = findCols img row0 col0" "rows \<noteq> []" "cols \<noteq> []"
    "W sk = Right (last cols) - col0" "H sk = Bottom (last rows) - row0"
    "Rows sk = Rows_Shift rows (- row0)"
    "Cols sk =
       (let cs = Cols_Shift cols (- col0);
            cs = cs[0 := (cs ! 0)\<lparr>Right := Right (cs ! 0) sdiv 2\<rparr>]
        in butlast cs @ Split (last cs))"
proof -
  from assms obtain row0 where r0: "findRow0 img = Inr row0"
    by (cases "findRow0 img") (simp_all add: prime_def)
  from assms r0 obtain col0 where c0: "findCol0 img row0 = Inr col0"
    by (cases "findCol0 img row0") (simp_all add: prime_def)
  define rows where "rows = findRows img row0"
  define cols where "cols = findCols img row0 col0"
  have ne: "rows \<noteq> []" "cols \<noteq> []"
    using assms r0 c0 by (auto simp: prime_def draw_def rows_def cols_def Let_def split: if_splits)
  have rf: "rows_from 0 row0 rows" and cf: "cols_from 0 col0 cols"
    using findRows_ok [of row0 img] findCols_ok [of col0 img row0]
    by (simp_all add: rows_def cols_def)
  have hd: "Top (hd rows) = row0" "Left (hd cols) = col0"
    using rows_from_hd [OF rf ne(1)] cols_from_hd [OF cf ne(2)] by simp_all
  have e: "row0 < Bottom (last rows)" "col0 < Right (last cols)"
    using rows_from_end [OF rf ne(1)] cols_from_end [OF cf ne(2)] by simp_all
  have sk: "sk = \<lparr>W = Right (last cols) - col0, H = Bottom (last rows) - row0,
      Rows = Rows_Shift rows (- row0),
      Cols = (let cs = Cols_Shift cols (- col0);
                  cs = cs[0 := (cs ! 0)\<lparr>Right := Right (cs ! 0) sdiv 2\<rparr>]
              in butlast cs @ Split (last cs))\<rparr>"
    using assms r0 c0 ne hd e
    by (simp add: prime_def draw_def Let_def flip: rows_def cols_def)
  show ?thesis
    by (rule that [OF r0 c0 rows_def cols_def ne]) (simp_all add: sk)
qed

lemma cols_shapes:
  assumes "cols_from 0 col0 cs" "cs \<noteq> []" "length cs \<le> 3"
  shows "(\<exists>x1. col0 < x1 \<and> cs = [\<lparr>ColNum = 0, Left = col0, Right = x1\<rparr>]) \<or>
    (\<exists>x1 x2. col0 < x1 \<and> x1 < x2 \<and>
       cs = [\<lparr>ColNum = 0, Left = col0, Right = x1\<rparr>, \<lparr>ColNum = 1, Left = x1, Right = x2\<rparr>]) \<or>
    (\<exists>x1 x2 x3. col0 < x1 \<and> x1 < x2 \<and> x2 < x3 \<and>
       cs = [\<lparr>ColNum = 0, Left = col0, Right = x1\<rparr>, \<lparr>ColNum = 1, Left = x1, Right = x2\<rparr>,
             \<lparr>ColNum = 2, Left = x2, Right = x3\<rparr>])"
proof -
  from assms obtain a as where cs: "cs = a # as" by (cases cs) auto
  have a: "a = \<lparr>ColNum = 0, Left = col0, Right = Right a\<rparr>" "col0 < Right a"
    using assms(1) cs by (cases a; simp)+
  show ?thesis
  proof (cases as)
    case Nil
    with cs a show ?thesis by metis
  next
    case (Cons b bs)
    have b: "b = \<lparr>ColNum = 1, Left = Right a, Right = Right b\<rparr>" "Right a < Right b"
      using assms(1) cs Cons by (cases b; simp)+
    show ?thesis
    proof (cases bs)
      case Nil
      with cs Cons a b show ?thesis by metis
    next
      case c: (Cons c ds)
      have ds: "ds = []" using assms(3) cs Cons c by simp
      have cc: "c = \<lparr>ColNum = 2, Left = Right b, Right = Right c\<rparr>" "Right b < Right c"
        using assms(1) cs Cons c by (cases c; simp)+
      from cs Cons c ds a b cc show ?thesis by metis
    qed
  qed
qed

lemma prime_cols:
  assumes "prime img = Inr sk"
  shows "\<exists>row0 col0. findRow0 img = Inr row0 \<and> findCol0 img row0 = Inr col0 \<and>
     ((\<exists>p. 0 < p \<and> length (findCols img row0 col0) = 1 \<and> W sk = p \<and>
          Cols sk = [\<lparr>ColNum = 0, Left = 0, Right = p div 2 - p div 2 div 2\<rparr>,
                     \<lparr>ColNum = 1, Left = p div 2 - p div 2 div 2, Right = p div 2\<rparr>]) \<or>
      (\<exists>p r. 0 < p \<and> p < r \<and> length (findCols img row0 col0) = 2 \<and> W sk = r \<and>
          Cols sk = [\<lparr>ColNum = 0, Left = 0, Right = p div 2\<rparr>,
                     \<lparr>ColNum = 1, Left = p, Right = r - (r - p) div 2\<rparr>,
                     \<lparr>ColNum = 2, Left = r - (r - p) div 2, Right = r\<rparr>]) \<or>
      (\<exists>p r s. 0 < p \<and> p < r \<and> r < s \<and> length (findCols img row0 col0) = 3 \<and> W sk = s \<and>
          Cols sk = [\<lparr>ColNum = 0, Left = 0, Right = p div 2\<rparr>,
                     \<lparr>ColNum = 1, Left = p, Right = r\<rparr>,
                     \<lparr>ColNum = 2, Left = r, Right = s - (s - r) div 2\<rparr>,
                     \<lparr>ColNum = 3, Left = s - (s - r) div 2, Right = s\<rparr>]))"
proof -
  from assms obtain row0 col0 rows cols where
    p: "findRow0 img = Inr row0" "findCol0 img row0 = Inr col0"
      "cols = findCols img row0 col0" "cols \<noteq> []"
      "W sk = Right (last cols) - col0"
      "Cols sk =
         (let cs = Cols_Shift cols (- col0);
              cs = cs[0 := (cs ! 0)\<lparr>Right := Right (cs ! 0) sdiv 2\<rparr>]
          in butlast cs @ Split (last cs))"
    by (rule prime_Inr)
  have cf: "cols_from 0 col0 cols" and len: "length cols \<le> 3"
    using findCols_ok [of col0 img row0] p(3) by simp_all
  from cols_shapes [OF cf p(4) len] consider
    (one) x1 where "col0 < x1" "cols = [\<lparr>ColNum = 0, Left = col0, Right = x1\<rparr>]"
  | (two) x1 x2 where "col0 < x1" "x1 < x2"
      "cols = [\<lparr>ColNum = 0, Left = col0, Right = x1\<rparr>, \<lparr>ColNum = 1, Left = x1, Right = x2\<rparr>]"
  | (three) x1 x2 x3 where "col0 < x1" "x1 < x2" "x2 < x3"
      "cols = [\<lparr>ColNum = 0, Left = col0, Right = x1\<rparr>, \<lparr>ColNum = 1, Left = x1, Right = x2\<rparr>,
               \<lparr>ColNum = 2, Left = x2, Right = x3\<rparr>]"
    by blast
  then show ?thesis
  proof cases
    case one
    have h: "0 \<le> (x1 - col0) div 2" using one(1) by simp
    have "0 < x1 - col0 \<and> length (findCols img row0 col0) = 1 \<and> W sk = x1 - col0 \<and>
      Cols sk = [\<lparr>ColNum = 0, Left = 0,
                   Right = (x1 - col0) div 2 - (x1 - col0) div 2 div 2\<rparr>,
                 \<lparr>ColNum = 1, Left = (x1 - col0) div 2 - (x1 - col0) div 2 div 2,
                   Right = (x1 - col0) div 2\<rparr>]"
      using one p(5,6) h unfolding p(3) [symmetric]
      by (simp add: Cols_Shift_def Split_def Let_def sdiv2_nonneg)
    with p(1,2) show ?thesis by blast
  next
    case two
    have "0 < x1 - col0 \<and> x1 - col0 < x2 - col0 \<and> length (findCols img row0 col0) = 2 \<and>
      W sk = x2 - col0 \<and>
      Cols sk = [\<lparr>ColNum = 0, Left = 0, Right = (x1 - col0) div 2\<rparr>,
                 \<lparr>ColNum = 1, Left = x1 - col0,
                   Right = (x2 - col0) - ((x2 - col0) - (x1 - col0)) div 2\<rparr>,
                 \<lparr>ColNum = 2, Left = (x2 - col0) - ((x2 - col0) - (x1 - col0)) div 2,
                   Right = x2 - col0\<rparr>]"
      using two p(5,6) unfolding p(3) [symmetric]
      by (simp add: Cols_Shift_def Split_def Let_def sdiv2_nonneg)
    with p(1,2) show ?thesis by blast
  next
    case three
    have "0 < x1 - col0 \<and> x1 - col0 < x2 - col0 \<and> x2 - col0 < x3 - col0 \<and>
      length (findCols img row0 col0) = 3 \<and> W sk = x3 - col0 \<and>
      Cols sk = [\<lparr>ColNum = 0, Left = 0, Right = (x1 - col0) div 2\<rparr>,
                 \<lparr>ColNum = 1, Left = x1 - col0, Right = x2 - col0\<rparr>,
                 \<lparr>ColNum = 2, Left = x2 - col0,
                   Right = (x3 - col0) - ((x3 - col0) - (x2 - col0)) div 2\<rparr>,
                 \<lparr>ColNum = 3, Left = (x3 - col0) - ((x3 - col0) - (x2 - col0)) div 2,
                   Right = x3 - col0\<rparr>]"
      using three p(5,6) unfolding p(3) [symmetric]
      by (simp add: Cols_Shift_def Split_def Let_def sdiv2_nonneg)
    with p(1,2) show ?thesis by blast
  qed
qed

lemma prime_rows:
  assumes "prime img = Inr sk"
  shows "rows_from 0 0 (Rows sk) \<and> Rows sk \<noteq> [] \<and> H sk = Bottom (last (Rows sk))"
proof -
  from assms obtain row0 rows where
    p: "rows = findRows img row0" "rows \<noteq> []" "H sk = Bottom (last rows) - row0"
      "Rows sk = Rows_Shift rows (- row0)"
    by (rule prime_Inr)
  have "rows_from 0 row0 rows"
    using findRows_ok [of row0 img] p(1) by simp
  from rows_from_shift [OF this, of "- row0"] p show ?thesis
    by (simp add: last_Rows_Shift) (simp add: Rows_Shift_def)
qed

lemma nums_nth: "map f xs = map int [0..<length xs] \<Longrightarrow> i < length xs \<Longrightarrow> f (xs ! i) = int i"
  by (metis add_0 length_map nth_map nth_upt length_upt diff_zero)

lemma prime_col_nums:
  assumes "prime img = Inr sk"
  shows "map ColNum (Cols sk) = map int [0..<length (Cols sk)]"
  using prime_cols [OF assms] by (auto simp: upt_conv_Cons)

lemma Split_span:
  "\<exists>c1 c2. Split c = [c1, c2] \<and> ColNum c1 = ColNum c \<and> ColNum c2 = ColNum c + 1 \<and>
     Left c1 = Left c \<and> Right c1 = Left c2 \<and> Right c2 = Right c \<and>
     (Left c \<le> Right c \<longrightarrow>
        (\<forall>x. (Left c \<le> x \<and> x \<le> Right c) \<longleftrightarrow>
             ((Left c1 \<le> x \<and> x \<le> Right c1) \<or> (Left c2 \<le> x \<and> x \<le> Right c2))))"
proof (cases "Left c \<le> Right c")
  case True
  then have "0 \<le> Right c - Left c" by simp
  then have "(Right c - Left c) sdiv 2 = (Right c - Left c) div 2"
    by (rule sdiv2_nonneg)
  with True show ?thesis
    by (auto simp: Split_def Let_def)
next
  case False
  then show ?thesis by (simp add: Split_def Let_def)
qed

text \<open>
  C10, as the code has it. Whenever \<open>prime\<close> succeeds, the \<open>Num\<close> of every row is its index
  and the \<open>Num\<close> of every column is its index in the final sequence of columns. That
  sequence has one column more than the divider marks \<open>findCols\<close> found, which are between
  one and three: four columns, numbered 0 to 3, when three marks were found. \<open>Find\<close> returns
  the index of the first row (column) whose inclusive range holds the coordinate. The two
  columns of \<open>Split\<close> carry the numbers \<open>Num\<close> and \<open>Num + 1\<close>, the first ends where the second
  starts, and together they cover the span of the column that was split.
\<close>

theorem prime_numbering:
  assumes "prime img = Inr sk"
  shows "map RowNum (Rows sk) = map int [0..<length (Rows sk)] \<and>
    map ColNum (Cols sk) = map int [0..<length (Cols sk)] \<and>
    (\<exists>row0 col0. findRow0 img = Inr row0 \<and> findCol0 img row0 = Inr col0 \<and>
       1 \<le> length (findCols img row0 col0) \<and> length (findCols img row0 col0) \<le> 3 \<and>
       length (Cols sk) = length (findCols img row0 col0) + 1) \<and>
    (\<forall>y k. Rows_Find (Rows sk) y = Inr k \<longrightarrow>
       (\<exists>i<length (Rows sk). k = int i \<and>
          Top (Rows sk ! i) \<le> y \<and> y \<le> Bottom (Rows sk ! i) \<and>
          (\<forall>j<i. \<not> (Top (Rows sk ! j) \<le> y \<and> y \<le> Bottom (Rows sk ! j))))) \<and>
    (\<forall>x k. Cols_Find (Cols sk) x = Inr k \<longrightarrow>
       (\<exists>i<length (Cols sk). k = int i \<and>
          Left (Cols sk ! i) \<le> x \<and> x \<le> Right (Cols sk ! i) \<and>
          (\<forall>j<i. \<not> (Left (Cols sk ! j) \<le> x \<and> x \<le> Right (Cols sk ! j))))) \<and>
    (\<exists>c1 c2. Split c = [c1, c2] \<and> ColNum c1 = ColNum c \<and> ColNum c2 = ColNum c + 1 \<and>
       Left c1 = Left c \<and> Right c1 = Left c2 \<and> Right c2 = Right c \<and>
       (Left c \<le> Right c \<longrightarrow>
          (\<forall>x. (Left c \<le> x \<and> x \<le> Right c) \<longleftrightarrow>
               ((Left c1 \<le> x \<and> x \<le> Right c1) \<or> (Left c2 \<le> x \<and> x \<le> Right c2)))))"
proof -
  have rn: "map RowNum (Rows sk) = map int [0..<length (Rows sk)]"
    using prime_rows [OF assms] rows_from_nums [of 0 0 "Rows sk"] by simp
  have cn: "map ColNum (Cols sk) = map int [0..<length (Cols sk)]"
    by (rule prime_col_nums [OF assms])
  have len: "\<exists>row0 col0. findRow0 img = Inr row0 \<and> findCol0 img row0 = Inr col0 \<and>
       1 \<le> length (findCols img row0 col0) \<and> length (findCols img row0 col0) \<le> 3 \<and>
       length (Cols sk) = length (findCols img row0 col0) + 1"
    using prime_cols [OF assms] by fastforce
  have rf: "\<exists>i<length (Rows sk). k = int i \<and>
          Top (Rows sk ! i) \<le> y \<and> y \<le> Bottom (Rows sk ! i) \<and>
          (\<forall>j<i. \<not> (Top (Rows sk ! j) \<le> y \<and> y \<le> Bottom (Rows sk ! j)))"
    if "Rows_Find (Rows sk) y = Inr k" for y k
  proof -
    from Rows_Find_first [OF that] obtain i where i: "i < length (Rows sk)"
      "k = RowNum (Rows sk ! i)" "Top (Rows sk ! i) \<le> y" "y \<le> Bottom (Rows sk ! i)"
      "\<forall>j<i. \<not> (Top (Rows sk ! j) \<le> y \<and> y \<le> Bottom (Rows sk ! j))"
      by blast
    from nums_nth [OF rn i(1)] i show ?thesis by auto
  qed
  have cf: "\<exists>i<length (Cols sk). k = int i \<and>
          Left (Cols sk ! i) \<le> x \<and> x \<le> Right (Cols sk ! i) \<and>
          (\<forall>j<i. \<not> (Left (Cols sk ! j) \<le> x \<and> x \<le> Right (Cols sk ! j)))"
    if "Cols_Find (Cols sk) x = Inr k" for x k
  proof -
    from Cols_Find_first [OF that] obtain i where i: "i < length (Cols sk)"
      "k = ColNum (Cols sk ! i)" "Left (Cols sk ! i) \<le> x" "x \<le> Right (Cols sk ! i)"
      "\<forall>j<i. \<not> (Left (Cols sk ! j) \<le> x \<and> x \<le> Right (Cols sk ! j))"
      by blast
    from nums_nth [OF cn i(1)] i show ?thesis by auto
  qed
  from rn cn len rf cf Split_span [of c] show ?thesis by blast
qed

text \<open>
  C3, as the code has it. For a skeleton of \<open>prime\<close> with all four columns, \<open>Rows.Find\<close>
  succeeds exactly for the coordinates from 0 to the height of the table, and fails with
  \<open>ErrNotFound\<close> for all others. \<open>Cols.Find\<close> succeeds exactly for the coordinates from 0 to
  the width of the table that are not in the gap which halving the first column opens
  between its right edge and the left edge of the second column, and fails with
  \<open>ErrNotFound\<close> for all others.
\<close>

theorem prime_Find_extent:
  assumes "prime img = Inr sk" and "length (Cols sk) = 4"
  shows "((\<exists>k. Rows_Find (Rows sk) y = Inr k) \<longleftrightarrow> (0 \<le> y \<and> y \<le> H sk)) \<and>
    (\<not> (0 \<le> y \<and> y \<le> H sk) \<longrightarrow> Rows_Find (Rows sk) y = Inl ErrNotFound) \<and>
    ((\<exists>k. Cols_Find (Cols sk) x = Inr k) \<longleftrightarrow>
       (0 \<le> x \<and> x \<le> W sk \<and> \<not> (Right (Cols sk ! 0) < x \<and> x < Left (Cols sk ! 1)))) \<and>
    (\<not> (0 \<le> x \<and> x \<le> W sk \<and> \<not> (Right (Cols sk ! 0) < x \<and> x < Left (Cols sk ! 1)))
       \<longrightarrow> Cols_Find (Cols sk) x = Inl ErrNotFound) \<and>
    0 < Left (Cols sk ! 1) \<and> Right (Cols sk ! 0) = Left (Cols sk ! 1) div 2"
proof -
  have r: "(\<exists>k. Rows_Find (Rows sk) y = Inr k) \<longleftrightarrow> (0 \<le> y \<and> y \<le> H sk)"
    using prime_rows [OF assms(1)] Rows_Find_iff [of 0 0 "Rows sk" y] by simp
  have r': "Rows_Find (Rows sk) y = Inl ErrNotFound" if "\<not> (0 \<le> y \<and> y \<le> H sk)"
  proof (cases "Rows_Find (Rows sk) y")
    case (Inl e)
    with Rows_Find_Inl [OF Inl] show ?thesis by simp
  next
    case (Inr k)
    with r that show ?thesis by blast
  qed
  from prime_cols [OF assms(1)] assms(2) obtain p q s where
    c: "0 < p" "p < q" "q < s" "W sk = s"
      "Cols sk = [\<lparr>ColNum = 0, Left = 0, Right = p div 2\<rparr>,
                 \<lparr>ColNum = 1, Left = p, Right = q\<rparr>,
                 \<lparr>ColNum = 2, Left = q, Right = s - (s - q) div 2\<rparr>,
                 \<lparr>ColNum = 3, Left = s - (s - q) div 2, Right = s\<rparr>]"
    by auto
  have m: "q < s - (s - q) div 2" "s - (s - q) div 2 \<le> s" "p div 2 < p" "0 \<le> p div 2"
    using c(1-3) by simp_all
  have c1: "(\<exists>k. Cols_Find (Cols sk) x = Inr k) \<longleftrightarrow>
       (0 \<le> x \<and> x \<le> W sk \<and> \<not> (Right (Cols sk ! 0) < x \<and> x < Left (Cols sk ! 1)))"
    using c m by auto
  have c2: "Cols_Find (Cols sk) x = Inl ErrNotFound"
    if "\<not> (0 \<le> x \<and> x \<le> W sk \<and> \<not> (Right (Cols sk ! 0) < x \<and> x < Left (Cols sk ! 1)))"
  proof (cases "Cols_Find (Cols sk) x")
    case (Inl e)
    with Cols_Find_Inl [OF Inl] show ?thesis by simp
  next
    case (Inr k)
    with c1 that show ?thesis by blast
  qed
  have "0 < Left (Cols sk ! 1) \<and> Right (Cols sk ! 0) = Left (Cols sk ! 1) div 2"
    using c by simp
  with r r' c1 c2 show ?thesis by blast
qed

lemma less2: "j < Suc (Suc 0) \<longleftrightarrow> j = 0 \<or> j = Suc 0"
  by auto

lemma less3: "j < Suc (Suc (Suc 0)) \<longleftrightarrow> j = 0 \<or> j = Suc 0 \<or> j = Suc (Suc 0)"
  by auto

lemma less4:
  "j < Suc (Suc (Suc (Suc 0))) \<longleftrightarrow> j = 0 \<or> j = Suc 0 \<or> j = Suc (Suc 0) \<or> j = Suc (Suc (Suc 0))"
  by auto

lemma prime_cols_ordered:
  assumes "prime img = Inr sk"
  shows "(\<forall>j<length (Cols sk). Left (Cols sk ! j) \<le> Right (Cols sk ! j)) \<and>
    (\<forall>j. Suc j < length (Cols sk) \<longrightarrow> Right (Cols sk ! j) \<le> Left (Cols sk ! Suc j)) \<and>
    (\<forall>i j x. i < j \<and> j < length (Cols sk) \<and>
       Left (Cols sk ! i) \<le> x \<and> x \<le> Right (Cols sk ! i) \<and>
       Left (Cols sk ! j) \<le> x \<and> x \<le> Right (Cols sk ! j)
       \<longrightarrow> j = Suc i \<and> x = Right (Cols sk ! i) \<and> x = Left (Cols sk ! j))"
proof -
  from prime_cols [OF assms] consider
    (one) p where "0 < p"
      "Cols sk = [\<lparr>ColNum = 0, Left = 0, Right = p div 2 - p div 2 div 2\<rparr>,
                  \<lparr>ColNum = 1, Left = p div 2 - p div 2 div 2, Right = p div 2\<rparr>]"
  | (two) p r where "0 < p" "p < r"
      "Cols sk = [\<lparr>ColNum = 0, Left = 0, Right = p div 2\<rparr>,
                  \<lparr>ColNum = 1, Left = p, Right = r - (r - p) div 2\<rparr>,
                  \<lparr>ColNum = 2, Left = r - (r - p) div 2, Right = r\<rparr>]"
  | (three) p r s where "0 < p" "p < r" "r < s"
      "Cols sk = [\<lparr>ColNum = 0, Left = 0, Right = p div 2\<rparr>,
                  \<lparr>ColNum = 1, Left = p, Right = r\<rparr>,
                  \<lparr>ColNum = 2, Left = r, Right = s - (s - r) div 2\<rparr>,
                  \<lparr>ColNum = 3, Left = s - (s - r) div 2, Right = s\<rparr>]"
    by blast
  then show ?thesis
  proof cases
    case one
    have m: "0 \<le> p div 2 - p div 2 div 2" "p div 2 - p div 2 div 2 \<le> p div 2"
      using one(1) by simp_all
    show ?thesis
      unfolding one(2) using m by (simp add: less2 less3 nth_Cons') 
  next
    case two
    have m: "0 \<le> p div 2" "p div 2 < p" "p < r - (r - p) div 2" "r - (r - p) div 2 \<le> r"
      using two(1,2) by simp_all
    show ?thesis
      unfolding two(3) using m by (auto simp: less2 less3 less4 nth_Cons')
  next
    case three
    have m: "0 \<le> p div 2" "p div 2 < p" "r < s - (s - r) div 2" "s - (s - r) div 2 \<le> s"
      using three(1-3) by simp_all
    show ?thesis
      unfolding three(4) using m three(2) by (auto simp: less2 less3 less4 nth_Cons')
  qed
qed

lemma rows_from_Top_ge: "rows_from n t rs \<Longrightarrow> k < length rs \<Longrightarrow> t \<le> Top (rs ! k)"
proof (induction rs arbitrary: n t k)
  case Nil
  then show ?case by simp
next
  case (Cons r rs)
  show ?case
  proof (cases k)
    case 0
    with Cons.prems show ?thesis by simp
  next
    case (Suc m)
    with Cons.prems Cons.IH [of "n + 1" "Bottom r" m] show ?thesis by simp
  qed
qed

lemma Rows_Find_inside:
  "rows_from n t rs \<Longrightarrow> i < length rs \<Longrightarrow> Top (rs ! i) < y \<Longrightarrow> y \<le> Bottom (rs ! i) \<Longrightarrow>
   Rows_Find rs y = Inr (n + int i)"
proof (induction rs arbitrary: n t i)
  case Nil
  then show ?case by simp
next
  case (Cons r rs)
  show ?case
  proof (cases i)
    case 0
    with Cons.prems show ?thesis by simp
  next
    case (Suc m)
    have rf: "rows_from (n + 1) (Bottom r) rs" and m: "m < length rs"
      using Cons.prems Suc by simp_all
    have "Bottom r \<le> Top (rs ! m)"
      by (rule rows_from_Top_ge [OF rf m])
    with Cons.prems Suc have "\<not> (y \<ge> Top r \<and> y \<le> Bottom r)"
      by simp
    then have "Rows_Find (r # rs) y = Rows_Find rs y"
      by (simp only: Rows_Find.simps if_False)
    moreover have "Rows_Find rs y = Inr (n + 1 + int m)"
      using Cons.IH [OF rf m] Cons.prems Suc by simp
    ultimately show ?thesis using Suc by (simp add: algebra_simps)
  qed
qed

lemma prime_cols_first:
  assumes "prime img = Inr sk"
  shows "(\<forall>i j x. i < j \<and> j < length (Cols sk) \<and>
       Left (Cols sk ! i) \<le> x \<and> x \<le> Right (Cols sk ! i) \<and>
       Left (Cols sk ! j) \<le> x \<and> x \<le> Right (Cols sk ! j)
       \<longrightarrow> Cols_Find (Cols sk) x = Inr (int i)) \<and>
    (\<forall>j. Suc j < length (Cols sk) \<longrightarrow> Cols_Find (Cols sk) (Right (Cols sk ! j)) = Inr (int j))"
proof -
  from prime_cols [OF assms] consider
    (one) p where "0 < p"
      "Cols sk = [\<lparr>ColNum = 0, Left = 0, Right = p div 2 - p div 2 div 2\<rparr>,
                  \<lparr>ColNum = 1, Left = p div 2 - p div 2 div 2, Right = p div 2\<rparr>]"
  | (two) p r where "0 < p" "p < r"
      "Cols sk = [\<lparr>ColNum = 0, Left = 0, Right = p div 2\<rparr>,
                  \<lparr>ColNum = 1, Left = p, Right = r - (r - p) div 2\<rparr>,
                  \<lparr>ColNum = 2, Left = r - (r - p) div 2, Right = r\<rparr>]"
  | (three) p r s where "0 < p" "p < r" "r < s"
      "Cols sk = [\<lparr>ColNum = 0, Left = 0, Right = p div 2\<rparr>,
                  \<lparr>ColNum = 1, Left = p, Right = r\<rparr>,
                  \<lparr>ColNum = 2, Left = r, Right = s - (s - r) div 2\<rparr>,
                  \<lparr>ColNum = 3, Left = s - (s - r) div 2, Right = s\<rparr>]"
    by blast
  then show ?thesis
  proof cases
    case one
    have m: "0 \<le> p div 2 - p div 2 div 2" "p div 2 - p div 2 div 2 \<le> p div 2"
      using one(1) by simp_all
    show ?thesis
      unfolding one(2) using m by (simp add: less2 less3 nth_Cons')
  next
    case two
    have m: "0 \<le> p div 2" "p div 2 < p" "p < r - (r - p) div 2" "r - (r - p) div 2 \<le> r"
      using two(1,2) by simp_all
    show ?thesis
      unfolding two(3) using m by (auto simp: less2 less3 less4 nth_Cons')
  next
    case three
    have m: "0 \<le> p div 2" "p div 2 < p" "r < s - (s - r) div 2" "s - (s - r) div 2 \<le> s"
      using three(1-3) by simp_all
    show ?thesis
      unfolding three(4) using m three(2) by (auto simp: less2 less3 less4 nth_Cons')
  qed
qed

lemma prime_rows_first:
  assumes "prime img = Inr sk"
  shows "(\<forall>i j y. i < j \<and> j < length (Rows sk) \<and>
       Top (Rows sk ! i) \<le> y \<and> y \<le> Bottom (Rows sk ! i) \<and>
       Top (Rows sk ! j) \<le> y \<and> y \<le> Bottom (Rows sk ! j)
       \<longrightarrow> Rows_Find (Rows sk) y = Inr (int i)) \<and>
    (\<forall>i. Suc i < length (Rows sk) \<longrightarrow> Rows_Find (Rows sk) (Bottom (Rows sk ! i)) = Inr (int i))"
proof -
  have rf: "rows_from 0 0 (Rows sk)"
    using prime_rows [OF assms] by simp
  have b: "Rows_Find (Rows sk) (Bottom (Rows sk ! i)) = Inr (int i)"
    if "i < length (Rows sk)" for i
    using Rows_Find_inside [OF rf that, of "Bottom (Rows sk ! i)"] rows_from_nth [OF rf that]
    by simp
  have a: "Rows_Find (Rows sk) y = Inr (int i)"
    if "i < j" "j < length (Rows sk)" "y \<le> Bottom (Rows sk ! i)" "Top (Rows sk ! j) \<le> y"
    for i j y
  proof -
    from rows_from_mono [OF rf that(1,2)] that(3,4)
    have "y = Bottom (Rows sk ! i)" by auto
    moreover have "i < length (Rows sk)" using that(1,2) by simp
    ultimately show ?thesis using b by simp
  qed
  from a b show ?thesis by (metis Suc_lessD)
qed

text \<open>
  C4, as the code has it. In a skeleton of \<open>prime\<close> every row has its top above its bottom
  and starts where the row before ends; every column has its left edge at or before its
  right edge and ends at or before the start of the next column. The inclusive ranges of
  two different rows (columns) share at most one coordinate: only neighbours share one,
  and it is the bottom of the first and the top of the second (the right edge of the first
  and the left edge of the second). For such a coordinate \<open>Find\<close> returns the first of the
  two: for the bottom of every row but the last it returns that row, and for the right
  edge of every column but the last it returns that column.
\<close>

theorem prime_ordered:
  assumes "prime img = Inr sk"
  shows "(\<forall>i<length (Rows sk). Top (Rows sk ! i) < Bottom (Rows sk ! i)) \<and>
    (\<forall>i. Suc i < length (Rows sk) \<longrightarrow> Bottom (Rows sk ! i) = Top (Rows sk ! Suc i)) \<and>
    (\<forall>i j y. i < j \<and> j < length (Rows sk) \<and>
       Top (Rows sk ! i) \<le> y \<and> y \<le> Bottom (Rows sk ! i) \<and>
       Top (Rows sk ! j) \<le> y \<and> y \<le> Bottom (Rows sk ! j)
       \<longrightarrow> j = Suc i \<and> y = Bottom (Rows sk ! i) \<and> y = Top (Rows sk ! j)) \<and>
    (\<forall>j<length (Cols sk). Left (Cols sk ! j) \<le> Right (Cols sk ! j)) \<and>
    (\<forall>j. Suc j < length (Cols sk) \<longrightarrow> Right (Cols sk ! j) \<le> Left (Cols sk ! Suc j)) \<and>
    (\<forall>i j x. i < j \<and> j < length (Cols sk) \<and>
       Left (Cols sk ! i) \<le> x \<and> x \<le> Right (Cols sk ! i) \<and>
       Left (Cols sk ! j) \<le> x \<and> x \<le> Right (Cols sk ! j)
       \<longrightarrow> j = Suc i \<and> x = Right (Cols sk ! i) \<and> x = Left (Cols sk ! j)) \<and>
    (\<forall>i j y. i < j \<and> j < length (Rows sk) \<and>
       Top (Rows sk ! i) \<le> y \<and> y \<le> Bottom (Rows sk ! i) \<and>
       Top (Rows sk ! j) \<le> y \<and> y \<le> Bottom (Rows sk ! j)
       \<longrightarrow> Rows_Find (Rows sk) y = Inr (int i)) \<and>
    (\<forall>i. Suc i < length (Rows sk)
       \<longrightarrow> Rows_Find (Rows sk) (Bottom (Rows sk ! i)) = Inr (int i)) \<and>
    (\<forall>i j x. i < j \<and> j < length (Cols sk) \<and>
       Left (Cols sk ! i) \<le> x \<and> x \<le> Right (Cols sk ! i) \<and>
       Left (Cols sk ! j) \<le> x \<and> x \<le> Right (Cols sk ! j)
       \<longrightarrow> Cols_Find (Cols sk) x = Inr (int i)) \<and>
    (\<forall>j. Suc j < length (Cols sk)
       \<longrightarrow> Cols_Find (Cols sk) (Right (Cols sk ! j)) = Inr (int j))"
proof -
  have rf: "rows_from 0 0 (Rows sk)"
    using prime_rows [OF assms] by simp
  have a: "\<forall>i<length (Rows sk). Top (Rows sk ! i) < Bottom (Rows sk ! i)"
    using rows_from_nth [OF rf] by blast
  have b: "\<forall>i. Suc i < length (Rows sk) \<longrightarrow> Bottom (Rows sk ! i) = Top (Rows sk ! Suc i)"
    using rows_from_adj [OF rf] by blast
  have c: "j = Suc i \<and> y = Bottom (Rows sk ! i) \<and> y = Top (Rows sk ! j)"
    if "i < j" "j < length (Rows sk)" "y \<le> Bottom (Rows sk ! i)" "Top (Rows sk ! j) \<le> y"
    for i j y
  proof -
    from rows_from_mono [OF rf that(1,2)] that(3,4)
    have "Bottom (Rows sk ! i) \<le> Top (Rows sk ! j)" "\<not> Suc i < j"
      by auto
    with that show ?thesis by auto
  qed
  have o: "(\<forall>i<length (Rows sk). Top (Rows sk ! i) < Bottom (Rows sk ! i)) \<and>
    (\<forall>i. Suc i < length (Rows sk) \<longrightarrow> Bottom (Rows sk ! i) = Top (Rows sk ! Suc i)) \<and>
    (\<forall>i j y. i < j \<and> j < length (Rows sk) \<and>
       Top (Rows sk ! i) \<le> y \<and> y \<le> Bottom (Rows sk ! i) \<and>
       Top (Rows sk ! j) \<le> y \<and> y \<le> Bottom (Rows sk ! j)
       \<longrightarrow> j = Suc i \<and> y = Bottom (Rows sk ! i) \<and> y = Top (Rows sk ! j))"
    using a b c by blast
  note rfst = prime_rows_first [OF assms]
  note cfst = prime_cols_first [OF assms]
  note co = prime_cols_ordered [OF assms]
  show ?thesis
    by (intro conjI o [THEN conjunct1] o [THEN conjunct2, THEN conjunct1]
        o [THEN conjunct2, THEN conjunct2]
        co [THEN conjunct1] co [THEN conjunct2, THEN conjunct1] co [THEN conjunct2, THEN conjunct2]
        rfst [THEN conjunct1] rfst [THEN conjunct2] cfst [THEN conjunct1] cfst [THEN conjunct2])
qed

lemma prime_grid_image:
  "prime grid_image = Inr
     \<lparr>W = 15, H = 10,
       Rows = [\<lparr>RowNum = 0, Top = 0, Bottom = 5\<rparr>, \<lparr>RowNum = 1, Top = 5, Bottom = 10\<rparr>],
       Cols = [\<lparr>ColNum = 0, Left = 0, Right = 2\<rparr>, \<lparr>ColNum = 1, Left = 5, Right = 10\<rparr>,
               \<lparr>ColNum = 2, Left = 10, Right = 13\<rparr>, \<lparr>ColNum = 3, Left = 13, Right = 15\<rparr>]\<rparr>"
  by code_simp

text \<open>
  The image with three marks: rows 0 and 1, columns 0 to 3.
\<close>

theorem prime_numbering_witness:
  "prime grid_image = Inr
     \<lparr>W = 15, H = 10,
       Rows = [\<lparr>RowNum = 0, Top = 0, Bottom = 5\<rparr>, \<lparr>RowNum = 1, Top = 5, Bottom = 10\<rparr>],
       Cols = [\<lparr>ColNum = 0, Left = 0, Right = 2\<rparr>, \<lparr>ColNum = 1, Left = 5, Right = 10\<rparr>,
               \<lparr>ColNum = 2, Left = 10, Right = 13\<rparr>, \<lparr>ColNum = 3, Left = 13, Right = 15\<rparr>]\<rparr> \<and>
   map RowNum [\<lparr>RowNum = 0, Top = 0, Bottom = 5\<rparr>, \<lparr>RowNum = 1, Top = 5, Bottom = 10\<rparr>]
     = map int [0..<2] \<and>
   map ColNum [\<lparr>ColNum = 0, Left = 0, Right = 2\<rparr>, \<lparr>ColNum = 1, Left = 5, Right = 10\<rparr>,
               \<lparr>ColNum = 2, Left = 10, Right = 13\<rparr>, \<lparr>ColNum = 3, Left = 13, Right = 15\<rparr>]
     = map int [0..<4]"
proof -
  let ?sk = "\<lparr>W = 15, H = 10,
       Rows = [\<lparr>RowNum = 0, Top = 0, Bottom = 5\<rparr>, \<lparr>RowNum = 1, Top = 5, Bottom = 10\<rparr>],
       Cols = [\<lparr>ColNum = 0, Left = 0, Right = 2\<rparr>, \<lparr>ColNum = 1, Left = 5, Right = 10\<rparr>,
               \<lparr>ColNum = 2, Left = 10, Right = 13\<rparr>, \<lparr>ColNum = 3, Left = 13, Right = 15\<rparr>]\<rparr>"
  from prime_numbering [OF prime_grid_image, of "\<lparr>ColNum = 2, Left = 10, Right = 15\<rparr>"]
  have "map RowNum (Rows ?sk) = map int [0..<length (Rows ?sk)]"
    and "map ColNum (Cols ?sk) = map int [0..<length (Cols ?sk)]"
    by (rule conjunct1, rule conjunct2 [THEN conjunct1])
  with prime_grid_image show ?thesis by (simp add: eval_nat_numeral)
qed

text \<open>
  C10 as stated fails: on the image with one divider mark \<open>prime\<close> succeeds with two columns.
\<close>

theorem prime_four_columns_counterexample:
  "prime one_marker_image = Inr
     \<lparr>W = 5, H = 10,
       Rows = [\<lparr>RowNum = 0, Top = 0, Bottom = 5\<rparr>, \<lparr>RowNum = 1, Top = 5, Bottom = 10\<rparr>],
       Cols = [\<lparr>ColNum = 0, Left = 0, Right = 1\<rparr>, \<lparr>ColNum = 1, Left = 1, Right = 2\<rparr>]\<rparr> \<and>
   length [\<lparr>ColNum = 0, Left = 0, Right = 1\<rparr>, \<lparr>ColNum = 1, Left = 1, Right = 2\<rparr>] = 2"
  by code_simp

text \<open>
  The image with three marks: the last row and the last column end at 10 and at 15.
\<close>

theorem prime_Find_extent_witness:
  "prime grid_image = Inr
     \<lparr>W = 15, H = 10,
       Rows = [\<lparr>RowNum = 0, Top = 0, Bottom = 5\<rparr>, \<lparr>RowNum = 1, Top = 5, Bottom = 10\<rparr>],
       Cols = [\<lparr>ColNum = 0, Left = 0, Right = 2\<rparr>, \<lparr>ColNum = 1, Left = 5, Right = 10\<rparr>,
               \<lparr>ColNum = 2, Left = 10, Right = 13\<rparr>, \<lparr>ColNum = 3, Left = 13, Right = 15\<rparr>]\<rparr> \<and>
   Rows_Find [\<lparr>RowNum = 0, Top = 0, Bottom = 5\<rparr>, \<lparr>RowNum = 1, Top = 5, Bottom = 10\<rparr>] 11
     = Inl ErrNotFound \<and>
   (\<exists>k. Rows_Find [\<lparr>RowNum = 0, Top = 0, Bottom = 5\<rparr>, \<lparr>RowNum = 1, Top = 5, Bottom = 10\<rparr>] 10
      = Inr k) \<and>
   (\<exists>k. Cols_Find [\<lparr>ColNum = 0, Left = 0, Right = 2\<rparr>, \<lparr>ColNum = 1, Left = 5, Right = 10\<rparr>,
               \<lparr>ColNum = 2, Left = 10, Right = 13\<rparr>, \<lparr>ColNum = 3, Left = 13, Right = 15\<rparr>] 15
      = Inr k) \<and>
   Cols_Find [\<lparr>ColNum = 0, Left = 0, Right = 2\<rparr>, \<lparr>ColNum = 1, Left = 5, Right = 10\<rparr>,
               \<lparr>ColNum = 2, Left = 10, Right = 13\<rparr>, \<lparr>ColNum = 3, Left = 13, Right = 15\<rparr>] 16
      = Inl ErrNotFound"
proof -
  let ?sk = "\<lparr>W = 15, H = 10,
       Rows = [\<lparr>RowNum = 0, Top = 0, Bottom = 5\<rparr>, \<lparr>RowNum = 1, Top = 5, Bottom = 10\<rparr>],
       Cols = [\<lparr>ColNum = 0, Left = 0, Right = 2\<rparr>, \<lparr>ColNum = 1, Left = 5, Right = 10\<rparr>,
               \<lparr>ColNum = 2, Left = 10, Right = 13\<rparr>, \<lparr>ColNum = 3, Left = 13, Right = 15\<rparr>]\<rparr>"
  have l: "length (Cols ?sk) = 4" by simp
  show ?thesis
    using prime_grid_image prime_Find_extent [OF prime_grid_image l, of 11 15]
      prime_Find_extent [OF prime_grid_image l, of 10 16]
    by simp
qed

text \<open>
  C3 as stated fails: in the skeleton of the image with three marks the coordinate 3 lies
  strictly inside the table, which is 15 wide, and \<open>Cols.Find\<close> fails for it.
\<close>

theorem prime_Find_gap_counterexample:
  "prime grid_image = Inr
     \<lparr>W = 15, H = 10,
       Rows = [\<lparr>RowNum = 0, Top = 0, Bottom = 5\<rparr>, \<lparr>RowNum = 1, Top = 5, Bottom = 10\<rparr>],
       Cols = [\<lparr>ColNum = 0, Left = 0, Right = 2\<rparr>, \<lparr>ColNum = 1, Left = 5, Right = 10\<rparr>,
               \<lparr>ColNum = 2, Left = 10, Right = 13\<rparr>, \<lparr>ColNum = 3, Left = 13, Right = 15\<rparr>]\<rparr> \<and>
   (0::int) < 3 \<and> (3::int) < 15 \<and>
   Cols_Find [\<lparr>ColNum = 0, Left = 0, Right = 2\<rparr>, \<lparr>ColNum = 1, Left = 5, Right = 10\<rparr>,
               \<lparr>ColNum = 2, Left = 10, Right = 13\<rparr>, \<lparr>ColNum = 3, Left = 13, Right = 15\<rparr>] 3
      = Inl ErrNotFound"
  using prime_grid_image by simp

text \<open>
  The image with three marks.
\<close>

theorem prime_ordered_witness:
  "prime grid_image = Inr
     \<lparr>W = 15, H = 10,
       Rows = [\<lparr>RowNum = 0, Top = 0, Bottom = 5\<rparr>, \<lparr>RowNum = 1, Top = 5, Bottom = 10\<rparr>],
       Cols = [\<lparr>ColNum = 0, Left = 0, Right = 2\<rparr>, \<lparr>ColNum = 1, Left = 5, Right = 10\<rparr>,
               \<lparr>ColNum = 2, Left = 10, Right = 13\<rparr>, \<lparr>ColNum = 3, Left = 13, Right = 15\<rparr>]\<rparr> \<and>
   Top \<lparr>RowNum = 0, Top = 0, Bottom = 5\<rparr> < Bottom \<lparr>RowNum = 0, Top = 0, Bottom = 5\<rparr> \<and>
   Bottom \<lparr>RowNum = 0, Top = 0, Bottom = 5\<rparr> = Top \<lparr>RowNum = 1, Top = 5, Bottom = 10\<rparr> \<and>
   Right \<lparr>ColNum = 0, Left = 0, Right = 2\<rparr> \<le> Left \<lparr>ColNum = 1, Left = 5, Right = 10\<rparr> \<and>
   Rows_Find [\<lparr>RowNum = 0, Top = 0, Bottom = 5\<rparr>, \<lparr>RowNum = 1, Top = 5, Bottom = 10\<rparr>] 5
     = Inr 0 \<and>
   Cols_Find [\<lparr>ColNum = 0, Left = 0, Right = 2\<rparr>, \<lparr>ColNum = 1, Left = 5, Right = 10\<rparr>,
              \<lparr>ColNum = 2, Left = 10, Right = 13\<rparr>, \<lparr>ColNum = 3, Left = 13, Right = 15\<rparr>] 10
     = Inr 1"
proof -
  let ?sk = "\<lparr>W = 15, H = 10,
       Rows = [\<lparr>RowNum = 0, Top = 0, Bottom = 5\<rparr>, \<lparr>RowNum = 1, Top = 5, Bottom = 10\<rparr>],
       Cols = [\<lparr>ColNum = 0, Left = 0, Right = 2\<rparr>, \<lparr>ColNum = 1, Left = 5, Right = 10\<rparr>,
               \<lparr>ColNum = 2, Left = 10, Right = 13\<rparr>, \<lparr>ColNum = 3, Left = 13, Right = 15\<rparr>]\<rparr>"
  note o = prime_ordered [OF prime_grid_image]
  have a: "Top (Rows ?sk ! 0) < Bottom (Rows ?sk ! 0)"
    using o [THEN conjunct1, rule_format, of 0] by simp
  have b: "Bottom (Rows ?sk ! 0) = Top (Rows ?sk ! Suc 0)"
    using o [THEN conjunct2, THEN conjunct1, rule_format, of 0] by simp
  have c: "Right (Cols ?sk ! 0) \<le> Left (Cols ?sk ! Suc 0)"
    using o [THEN conjunct2, THEN conjunct2, THEN conjunct2, THEN conjunct2, THEN conjunct1,
        rule_format, of 0]
    by simp
  have d: "Rows_Find (Rows ?sk) (Bottom (Rows ?sk ! 0)) = Inr (int 0)"
    using o [THEN conjunct2, THEN conjunct2, THEN conjunct2, THEN conjunct2, THEN conjunct2,
        THEN conjunct2, THEN conjunct2, THEN conjunct1, rule_format, of 0]
    by simp
  have e: "Cols_Find (Cols ?sk) (Right (Cols ?sk ! Suc 0)) = Inr (int (Suc 0))"
    using o [THEN conjunct2, THEN conjunct2, THEN conjunct2, THEN conjunct2, THEN conjunct2,
        THEN conjunct2, THEN conjunct2, THEN conjunct2, THEN conjunct2, rule_format, of "Suc 0"]
    by simp
  from a b c d e prime_grid_image show ?thesis by simp
qed

text \<open>
  C4 as stated fails: in the skeleton of the image with three marks the coordinate 5 lies
  in the inclusive ranges of row 0 and of row 1; and in the skeleton of the image whose
  first mark is one pixel right of the origin, the first column has its left edge equal to
  its right edge.
\<close>

theorem prime_overlap_counterexample:
  "prime grid_image = Inr
     \<lparr>W = 15, H = 10,
       Rows = [\<lparr>RowNum = 0, Top = 0, Bottom = 5\<rparr>, \<lparr>RowNum = 1, Top = 5, Bottom = 10\<rparr>],
       Cols = [\<lparr>ColNum = 0, Left = 0, Right = 2\<rparr>, \<lparr>ColNum = 1, Left = 5, Right = 10\<rparr>,
               \<lparr>ColNum = 2, Left = 10, Right = 13\<rparr>, \<lparr>ColNum = 3, Left = 13, Right = 15\<rparr>]\<rparr> \<and>
   Top \<lparr>RowNum = 0, Top = 0, Bottom = 5\<rparr> \<le> 5 \<and> 5 \<le> Bottom \<lparr>RowNum = 0, Top = 0, Bottom = 5\<rparr> \<and>
   Top \<lparr>RowNum = 1, Top = 5, Bottom = 10\<rparr> \<le> 5 \<and> 5 \<le> Bottom \<lparr>RowNum = 1, Top = 5, Bottom = 10\<rparr> \<and>
   RowNum \<lparr>RowNum = 0, Top = 0, Bottom = 5\<rparr> \<noteq> RowNum \<lparr>RowNum = 1, Top = 5, Bottom = 10\<rparr> \<and>
   prime thick_image = Inr
     \<lparr>W = 15, H = 10,
       Rows = [\<lparr>RowNum = 0, Top = 0, Bottom = 5\<rparr>, \<lparr>RowNum = 1, Top = 5, Bottom = 10\<rparr>],
       Cols = [\<lparr>ColNum = 0, Left = 0, Right = 0\<rparr>, \<lparr>ColNum = 1, Left = 1, Right = 10\<rparr>,
               \<lparr>ColNum = 2, Left = 10, Right = 13\<rparr>, \<lparr>ColNum = 3, Left = 13, Right = 15\<rparr>]\<rparr> \<and>
   Left \<lparr>ColNum = 0, Left = 0, Right = 0\<rparr> = Right \<lparr>ColNum = 0, Left = 0, Right = 0\<rparr>"
proof -
  have "prime thick_image = Inr
     \<lparr>W = 15, H = 10,
       Rows = [\<lparr>RowNum = 0, Top = 0, Bottom = 5\<rparr>, \<lparr>RowNum = 1, Top = 5, Bottom = 10\<rparr>],
       Cols = [\<lparr>ColNum = 0, Left = 0, Right = 0\<rparr>, \<lparr>ColNum = 1, Left = 1, Right = 10\<rparr>,
               \<lparr>ColNum = 2, Left = 10, Right = 13\<rparr>, \<lparr>ColNum = 3, Left = 13, Right = 15\<rparr>]\<rparr>"
    by code_simp
  with prime_grid_image show ?thesis by simp
qed

subsection \<open>Cleaning\<close>

lemma inBounds_Set_px [simp]: "inBounds (Set_px img x y c) x' y' = inBounds img x' y'"
  by (simp add: Set_px_def inBounds_def)

lemma Width_Set_px [simp]: "Width (Set_px img x y c) = Width img"
  by (simp add: Set_px_def)

lemma Height_Set_px [simp]: "Height (Set_px img x y c) = Height img"
  by (simp add: Set_px_def)

lemma At_Set_px:
  "At (Set_px img x y c) x' y' = (if inBounds img x y \<and> x' = x \<and> y' = y then c else At img x' y')"
  by (auto simp: At_def Set_px_def inBounds_def)

lemma hline:
  "Width (fold (\<lambda>x im. Set_px im x y0 c) xs img) = Width img \<and>
   Height (fold (\<lambda>x im. Set_px im x y0 c) xs img) = Height img \<and>
   (\<forall>x y. At (fold (\<lambda>x im. Set_px im x y0 c) xs img) x y =
      (if inBounds img x y \<and> y = y0 \<and> x \<in> set xs then c else At img x y))"
proof (induction xs arbitrary: img)
  case Nil
  then show ?case by simp
next
  case (Cons a xs)
  show ?case
    using Cons.IH [of "Set_px img a y0 c"] by (auto simp: At_Set_px)
qed

lemma vline:
  "Width (fold (\<lambda>y im. Set_px im x0 y c) ys img) = Width img \<and>
   Height (fold (\<lambda>y im. Set_px im x0 y c) ys img) = Height img \<and>
   (\<forall>x y. At (fold (\<lambda>y im. Set_px im x0 y c) ys img) x y =
      (if inBounds img x y \<and> x = x0 \<and> y \<in> set ys then c else At img x y))"
proof (induction ys arbitrary: img)
  case Nil
  then show ?case by simp
next
  case (Cons a ys)
  show ?case
    using Cons.IH [of "Set_px img x0 a c"] by (auto simp: At_Set_px)
qed

lemma inBounds_cong: "Width a = Width b \<Longrightarrow> Height a = Height b \<Longrightarrow> inBounds a x y = inBounds b x y"
  by (simp add: inBounds_def)

lemma hlines:
  "Width (fold (\<lambda>r im. fold (\<lambda>x im'. Set_px im' x (Top r) c) xs im) rows img) = Width img \<and>
   Height (fold (\<lambda>r im. fold (\<lambda>x im'. Set_px im' x (Top r) c) xs im) rows img) = Height img \<and>
   (\<forall>x y. At (fold (\<lambda>r im. fold (\<lambda>x im'. Set_px im' x (Top r) c) xs im) rows img) x y =
      (if inBounds img x y \<and> y \<in> Top ` set rows \<and> x \<in> set xs then c else At img x y))"
proof (induction rows arbitrary: img)
  case Nil
  then show ?case by simp
next
  case (Cons r rows)
  define img1 where "img1 = fold (\<lambda>x im'. Set_px im' x (Top r) c) xs img"
  have h: "Width img1 = Width img" "Height img1 = Height img"
    "\<And>x y. At img1 x y = (if inBounds img x y \<and> y = Top r \<and> x \<in> set xs then c else At img x y)"
    using hline [of "Top r" c xs img] by (simp_all add: img1_def)
  have b: "inBounds img1 x y = inBounds img x y" for x y
    using h(1,2) by (rule inBounds_cong)
  show ?case
    using Cons.IH [of img1] h b by (auto simp flip: img1_def)
qed

lemma vlines:
  "Width (fold (\<lambda>cl im. fold (\<lambda>y im'. Set_px im' (Right cl) y c) ys im) cols img) = Width img \<and>
   Height (fold (\<lambda>cl im. fold (\<lambda>y im'. Set_px im' (Right cl) y c) ys im) cols img) = Height img \<and>
   (\<forall>x y. At (fold (\<lambda>cl im. fold (\<lambda>y im'. Set_px im' (Right cl) y c) ys im) cols img) x y =
      (if inBounds img x y \<and> x \<in> Right ` set cols \<and> y \<in> set ys then c else At img x y))"
proof (induction cols arbitrary: img)
  case Nil
  then show ?case by simp
next
  case (Cons cl cols)
  define img1 where "img1 = fold (\<lambda>y im'. Set_px im' (Right cl) y c) ys img"
  have h: "Width img1 = Width img" "Height img1 = Height img"
    "\<And>x y. At img1 x y = (if inBounds img x y \<and> x = Right cl \<and> y \<in> set ys then c else At img x y)"
    using vline [of "Right cl" c ys img] by (simp_all add: img1_def)
  have b: "inBounds img1 x y = inBounds img x y" for x y
    using h(1,2) by (rule inBounds_cong)
  show ?case
    using Cons.IH [of img1] h b by (auto simp flip: img1_def)
qed

lemma clean_At:
  "At (clean img rows cols) x y =
     (if inBounds img x y \<and> (y \<in> Top ` set rows \<or> x \<in> Right ` set cols) then white
      else At img x y)"
proof -
  define img1 where
    "img1 = fold (\<lambda>r im. fold (\<lambda>x im'. Set_px im' x (Top r) white) [0..Width img - 1] im) rows img"
  have h: "Width img1 = Width img" "Height img1 = Height img"
    "\<And>x y. At img1 x y =
       (if inBounds img x y \<and> y \<in> Top ` set rows \<and> x \<in> set [0..Width img - 1] then white
        else At img x y)"
    using hlines [of white "[0..Width img - 1]" rows img] by (simp_all add: img1_def)
  have b: "inBounds img1 x y = inBounds img x y" for x y
    using h(1,2) by (rule inBounds_cong)
  have c: "clean img rows cols =
    fold (\<lambda>cl im. fold (\<lambda>y im'. Set_px im' (Right cl) y white) [0..Height img - 1] im) cols img1"
    by (simp add: clean_def img1_def Let_def)
  have "At (clean img rows cols) x y =
    (if inBounds img1 x y \<and> x \<in> Right ` set cols \<and> y \<in> set [0..Height img - 1] then white
     else At img1 x y)"
    unfolding c using vlines [of white "[0..Height img - 1]" cols img1] by simp
  then show ?thesis
    unfolding b h(3) by (auto simp: inBounds_def)
qed

lemma clean_dims: "Width (clean img rows cols) = Width img \<and> Height (clean img rows cols) = Height img"
proof -
  define img1 where
    "img1 = fold (\<lambda>r im. fold (\<lambda>x im'. Set_px im' x (Top r) white) [0..Width img - 1] im) rows img"
  have h: "Width img1 = Width img" "Height img1 = Height img"
    using hlines [of white "[0..Width img - 1]" rows img] by (simp_all add: img1_def)
  have c: "clean img rows cols =
    fold (\<lambda>cl im. fold (\<lambda>y im'. Set_px im' (Right cl) y white) [0..Height img - 1] im) cols img1"
    by (simp add: clean_def img1_def Let_def)
  show ?thesis
    unfolding c using vlines [of white "[0..Height img - 1]" cols img1] h by simp
qed

lemma cols_from_adj:
  "cols_from n l cs \<Longrightarrow> Suc j < length cs \<Longrightarrow> Right (cs ! j) = Left (cs ! Suc j)"
proof (induction cs arbitrary: n l j)
  case Nil
  then show ?case by simp
next
  case (Cons c cs)
  show ?case
  proof (cases j)
    case 0
    with Cons.prems show ?thesis by (cases cs) auto
  next
    case (Suc k)
    with Cons.prems Cons.IH [of "n + 1" "Right c" k] show ?thesis by simp
  qed
qed

text \<open>
  C6, as the code has it. \<open>clean\<close> keeps the size of the image and paints the line
  \<open>y = Top\<close> of every row and the line \<open>x = Right\<close> of every column white, across the whole
  image. For the rows and columns of the detector the bottom line of every row but the
  last is the top line of the next row, and the left line of every column but the first is
  the right line of the column before, so these are white as well.
\<close>

theorem clean_lines:
  assumes "rows = findRows img row0" and "cols = findCols img row0 col0"
    and "img' = clean img rows cols"
  shows "Width img' = Width img \<and> Height img' = Height img \<and>
    (\<forall>r\<in>set rows. \<forall>x. inBounds img x (Top r) \<longrightarrow> At img' x (Top r) = white) \<and>
    (\<forall>c\<in>set cols. \<forall>y. inBounds img (Right c) y \<longrightarrow> At img' (Right c) y = white) \<and>
    (\<forall>i x. Suc i < length rows \<and> inBounds img x (Bottom (rows ! i))
       \<longrightarrow> At img' x (Bottom (rows ! i)) = white) \<and>
    (\<forall>j y. Suc j < length cols \<and> inBounds img (Left (cols ! Suc j)) y
       \<longrightarrow> At img' (Left (cols ! Suc j)) y = white)"
proof -
  have rf: "rows_from 0 row0 rows" and cf: "cols_from 0 col0 cols"
    using findRows_ok [of row0 img] findCols_ok [of col0 img row0] assms(1,2) by simp_all
  have a: "\<forall>r\<in>set rows. \<forall>x. inBounds img x (Top r) \<longrightarrow> At img' x (Top r) = white"
    by (simp add: assms(3) clean_At)
  have b: "\<forall>c\<in>set cols. \<forall>y. inBounds img (Right c) y \<longrightarrow> At img' (Right c) y = white"
    by (simp add: assms(3) clean_At)
  have c: "At img' x (Bottom (rows ! i)) = white"
    if "Suc i < length rows" "inBounds img x (Bottom (rows ! i))" for i x
  proof -
    have "Bottom (rows ! i) = Top (rows ! Suc i)"
      using rows_from_adj [OF rf that(1)] .
    moreover have "rows ! Suc i \<in> set rows"
      using that(1) by simp
    ultimately show ?thesis
      using a that(2) by metis
  qed
  have d: "At img' (Left (cols ! Suc j)) y = white"
    if "Suc j < length cols" "inBounds img (Left (cols ! Suc j)) y" for j y
  proof -
    have "Left (cols ! Suc j) = Right (cols ! j)"
      using cols_from_adj [OF cf that(1)] by simp
    moreover have "cols ! j \<in> set cols"
      using that(1) by simp
    ultimately show ?thesis
      using b that(2) by metis
  qed
  from a b c d clean_dims [of img rows cols] assms(3) show ?thesis by blast
qed

text \<open>
  The image with three marks: the top line of the second row and the right line of the
  third column, black before, are white after.
\<close>

theorem clean_lines_witness:
  "At grid_image 0 9 = black \<and>
   At (clean grid_image (findRows grid_image 4) (findCols grid_image 4 3)) 0 9 = white \<and>
   At grid_image 18 0 = black \<and>
   At (clean grid_image (findRows grid_image 4) (findCols grid_image 4 3)) 18 0 = white"
proof -
  have r: "findRows grid_image 4 =
      [\<lparr>RowNum = 0, Top = 4, Bottom = 9\<rparr>, \<lparr>RowNum = 1, Top = 9, Bottom = 14\<rparr>]"
    by code_simp
  have c: "findCols grid_image 4 3 =
      [\<lparr>ColNum = 0, Left = 3, Right = 8\<rparr>, \<lparr>ColNum = 1, Left = 8, Right = 13\<rparr>,
       \<lparr>ColNum = 2, Left = 13, Right = 18\<rparr>]"
    by code_simp
  note t = clean_lines [OF refl refl refl, of grid_image 4 3]
  have m: "\<lparr>RowNum = 1, Top = 9, Bottom = 14\<rparr> \<in> set (findRows grid_image 4)"
    by (simp add: r)
  have ib: "inBounds grid_image 0 (Top \<lparr>RowNum = 1, Top = 9, Bottom = 14\<rparr>)"
    by (simp add: inBounds_def grid_image_def)
  have a: "At (clean grid_image (findRows grid_image 4) (findCols grid_image 4 3)) 0 9 = white"
    using t [THEN conjunct2, THEN conjunct2, THEN conjunct1, rule_format, OF m ib]
    by simp
  have m': "\<lparr>ColNum = 2, Left = 13, Right = 18\<rparr> \<in> set (findCols grid_image 4 3)"
    by (simp add: c)
  have ib': "inBounds grid_image (Right \<lparr>ColNum = 2, Left = 13, Right = 18\<rparr>) 0"
    by (simp add: inBounds_def grid_image_def)
  have b: "At (clean grid_image (findRows grid_image 4) (findCols grid_image 4 3)) 18 0 = white"
    using t [THEN conjunct2, THEN conjunct2, THEN conjunct2, THEN conjunct1, rule_format,
        OF m' ib']
    by simp
  have "At grid_image 0 9 = black" "At grid_image 18 0 = black"
    by (simp_all add: At_def inBounds_def grid_image_def)
  with a b show ?thesis by simp
qed

text \<open>
  C6 as stated fails: the bottom line of the last row is not painted. In the image with
  three marks the pixel at \<open>x = 0\<close> of the line \<open>y = 14\<close> is still black.
\<close>

theorem clean_last_bottom_counterexample:
  "findRows grid_image 4 =
     [\<lparr>RowNum = 0, Top = 4, Bottom = 9\<rparr>, \<lparr>RowNum = 1, Top = 9, Bottom = 14\<rparr>] \<and>
   inBounds grid_image 0 14 \<and>
   At (clean grid_image (findRows grid_image 4) (findCols grid_image 4 3)) 0 14 = black \<and>
   black \<noteq> white"
  by code_simp

subsection \<open>Averages\<close>




















subsection \<open>A time before its date\<close>

lemma Format_zeroTime: "Format zeroTime dateFormat = ''01010001''"
  by code_simp

lemma of_char_digitChar: "a < 10 \<Longrightarrow> of_char (digitChar a) = 48 + a"
  by (simp add: digitChar_def)

lemma digitVal_digitChar: "a < 10 \<Longrightarrow> digitVal (digitChar a) = int a"
  by (simp add: digitVal_def digitChar_def)

lemma digitChar_not_dot: "a < 10 \<Longrightarrow> digitChar a \<noteq> CHR ''.''"
proof
  assume "a < 10" "digitChar a = CHR ''.''"
  then have "(of_char (digitChar a) :: nat) = of_char CHR ''.''" by simp
  with \<open>a < 10\<close> show False by (simp add: of_char_digitChar)
qed

lemma digitChar_0: "digitChar 0 = CHR ''0''"
  by code_simp

lemma ndigits_1: "0 < u \<Longrightarrow> u < 10 \<Longrightarrow> ndigits (Suc f) u = 1"
  by (cases f) simp_all

lemma ndigits_2: "10 \<le> u \<Longrightarrow> u < 100 \<Longrightarrow> ndigits (Suc (Suc f)) u = 2"
proof -
  assume a: "10 \<le> u" "u < 100"
  then have "0 < u div 10" "u div 10 < 10" by simp_all
  from ndigits_1 [OF this, of f] a show ?thesis by simp
qed

lemma appendInt_2:
  assumes "0 \<le> x" "x < 100"
  shows "appendInt x 2 = [digitChar (nat x div 10), digitChar (nat x mod 10)]"
proof -
  define u where "u = nat x"
  have u: "u < 100" "\<not> x < 0" using assms by (simp_all add: u_def)
  consider "u = 0" | "0 < u" "u < 10" | "10 \<le> u" by linarith
  then show ?thesis
  proof cases
    case 1
    with u show ?thesis
      by (simp add: appendInt_def digitChar_0 numeral_2_eq_2 flip: u_def)
  next
    case 2
    then have n: "ndigits (Suc u) u = 1" by (rule ndigits_1)
    from 2 u n show ?thesis
      by (simp add: appendInt_def digitChar_0 numeral_2_eq_2 flip: u_def)
  next
    case 3
    then obtain f where f: "u = Suc f" by (cases u) simp_all
    have n: "ndigits (Suc u) u = 2"
      unfolding f [symmetric] using ndigits_2 [OF 3 u(1), of f] f by simp
    have "u div 10 < 10" using u by simp
    with 3 u n show ?thesis
      by (simp add: appendInt_def numeral_2_eq_2 flip: u_def)
  qed
qed

lemma parse_date_part:
  "parseChunks (dateFormat @ l) (''01010001'' @ v) fields0 =
     parseChunks l v \<lparr>f_year = 1, f_month = 1, f_day = 1, f_hour = 0, f_min = 0\<rparr>"
  by (simp add: dateFormat_def getnum_def isDigit_def digitVal_def fields0_def)

lemma parse_clock_dot:
  assumes "a < 10" "b < 10" "c < 10" "e < 10" "int a * 10 + int b < 24" "int c * 10 + int e < 60"
  shows "parseChunks [stdHour, Lit ''.'', stdZeroMinute]
      ([digitChar a, digitChar b] @ ''.'' @ [digitChar c, digitChar e]) f =
    Some (f\<lparr>f_hour := int a * 10 + int b, f_min := int c * 10 + int e\<rparr>)"
  using assms
  by (simp add: getnum_def isDigit_def digitVal_digitChar of_char_digitChar nth_Cons')

lemma parse_clock_dot_fails:
  assumes "a < 10" "b < 10" "c < 10" "e < 10" "int a * 10 + int b < 24"
  shows "parseChunks [stdHour, Lit ''.'', stdZeroMinute]
      ([digitChar a, digitChar b] @ [digitChar c, digitChar e]) f = None"
  using assms digitChar_not_dot [of c]
  by (simp add: getnum_def isDigit_def digitVal_digitChar of_char_digitChar nth_Cons')

lemma parse_clock_plain:
  assumes "a < 10" "b < 10" "c < 10" "e < 10" "int a * 10 + int b < 24" "int c * 10 + int e < 60"
  shows "parseChunks [stdHour, stdZeroMinute]
      ([digitChar a, digitChar b] @ [digitChar c, digitChar e]) f =
    Some (f\<lparr>f_hour := int a * 10 + int b, f_min := int c * 10 + int e\<rparr>)"
  using assms
  by (simp add: getnum_def isDigit_def digitVal_digitChar of_char_digitChar nth_Cons')

lemma two_digits:
  assumes "0 \<le> x" "x < 100"
  shows "nat x div 10 < 10 \<and> nat x mod 10 < 10 \<and> int (nat x div 10) * 10 + int (nat x mod 10) = x"
  using assms by (simp add: zdiv_int zmod_int) 

lemma parseTime_zero:
  assumes "0 \<le> h" "h < 24" "0 \<le> mi" "mi < 60"
  shows "parseTime ''01010001'' (appendInt h 2 @ ''.'' @ appendInt mi 2) = Inr (Date 1 1 1 h mi 0 0)"
    and "parseTime ''01010001'' (appendInt h 2 @ appendInt mi 2) = Inr (Date 1 1 1 h mi 0 0)"
proof -
  define a b c e where "a = nat h div 10" and "b = nat h mod 10"
    and "c = nat mi div 10" and "e = nat mi mod 10"
  have hh: "a < 10" "b < 10" "int a * 10 + int b = h"
    using two_digits [of h] assms by (simp_all add: a_def b_def)
  have mm: "c < 10" "e < 10" "int c * 10 + int e = mi"
    using two_digits [of mi] assms by (simp_all add: c_def e_def)
  have th: "appendInt h 2 = [digitChar a, digitChar b]"
    using assms by (simp add: appendInt_2 a_def b_def)
  have tm: "appendInt mi 2 = [digitChar c, digitChar e]"
    using assms by (simp add: appendInt_2 c_def e_def)
  have lt: "int a * 10 + int b < 24" "int c * 10 + int e < 60"
    using hh mm assms by simp_all
  let ?f = "\<lparr>f_year = 1, f_month = 1, f_day = 1, f_hour = 0, f_min = 0\<rparr>"
  have d: "1 \<le> daysIn 1 1" by (simp add: daysIn_def daysBefore_def)
  have p1: "parseChunks timeFormat
      (''01010001'' @ [digitChar a, digitChar b] @ ''.'' @ [digitChar c, digitChar e]) fields0
    = Some (?f\<lparr>f_hour := h, f_min := mi\<rparr>)"
    unfolding timeFormat_def parse_date_part
    using parse_clock_dot [OF hh(1,2) mm(1,2) lt, of ?f] hh(3) mm(3) by simp
  have p2: "parseChunks timeFormat
      (''01010001'' @ [digitChar a, digitChar b] @ [digitChar c, digitChar e]) fields0 = None"
    unfolding timeFormat_def parse_date_part
    using parse_clock_dot_fails [OF hh(1,2) mm(1,2) lt(1), of ?f] by simp
  have p3: "parseChunks timeFormat2
      (''01010001'' @ [digitChar a, digitChar b] @ [digitChar c, digitChar e]) fields0
    = Some (?f\<lparr>f_hour := h, f_min := mi\<rparr>)"
    unfolding timeFormat2_def parse_date_part
    using parse_clock_plain [OF hh(1,2) mm(1,2) lt, of ?f] hh(3) mm(3) by simp
  show "parseTime ''01010001'' (appendInt h 2 @ ''.'' @ appendInt mi 2) = Inr (Date 1 1 1 h mi 0 0)"
    unfolding th tm parseTime_def Parse_def Let_def p1
    by (simp add: daysIn_def daysBefore_def)
  show "parseTime ''01010001'' (appendInt h 2 @ appendInt mi 2) = Inr (Date 1 1 1 h mi 0 0)"
    unfolding th tm parseTime_def Parse_def Let_def p2 p3
    by (simp add: daysIn_def daysBefore_def)
qed

text \<open>
  C1, as the code has it. When \<open>scan\<close> comes to a word that lies in the In or the Out
  column of a row whose entry has no date yet, the date of the entry is the zero time, whose
  date string is \<open>01010001\<close>. The time is parsed with that string: the scan aborts only when
  the text of the word is not a time, and otherwise goes on with the entry's arrival
  (departure) set. A text of two digits for an hour below 24 and two digits for a minute
  below 60, with or without a dot between them, is parsed to that time on 1 January of
  year 1.
\<close>

theorem scan_time_before_date:
  assumes w: "Type d = Some ''WORD''"
    and ce: "center (Geometry d) sk = (cx, cy)"
    and c: "Cols_Find (Cols sk) cx = Inr c" "c = 2 \<or> c = 3"
    and r: "Rows_Find (Rows sk) cy = Inr r" "0 \<le> r" "r < int (length entries)"
    and z: "date (entries ! nat r) = zeroTime"
  shows "Format (date (entries ! nat r)) dateFormat = ''01010001'' \<and>
    scan_loop (d # ds) sk entries =
      (case parseTime ''01010001'' (DetectedText d) of
         Inl err \<Rightarrow> Inl err
       | Inr t \<Rightarrow>
           scan_loop ds sk
             (entries[nat r := (if c = 2 then (entries ! nat r)\<lparr>inTime := Some t\<rparr>
                                else (entries ! nat r)\<lparr>outTime := Some t\<rparr>)])) \<and>
    (\<forall>h mi. 0 \<le> h \<and> h < 24 \<and> 0 \<le> mi \<and> mi < 60 \<and>
       (DetectedText d = appendInt h 2 @ ''.'' @ appendInt mi 2 \<or>
        DetectedText d = appendInt h 2 @ appendInt mi 2)
       \<longrightarrow> parseTime ''01010001'' (DetectedText d) = Inr (Date 1 1 1 h mi 0 0))"
proof -
  have f: "Format (date (entries ! nat r)) dateFormat = ''01010001''"
    by (simp add: z Format_zeroTime)
  have s: "scan_loop (d # ds) sk entries =
      (case parseTime ''01010001'' (DetectedText d) of
         Inl err \<Rightarrow> Inl err
       | Inr t \<Rightarrow>
           scan_loop ds sk
             (entries[nat r := (if c = 2 then (entries ! nat r)\<lparr>inTime := Some t\<rparr>
                                else (entries ! nat r)\<lparr>outTime := Some t\<rparr>)]))"
    using w ce c r f
    by (cases "parseTime ''01010001'' (DetectedText d)") (auto simp: Let_def)
  have p: "parseTime ''01010001'' (DetectedText d) = Inr (Date 1 1 1 h mi 0 0)"
    if "0 \<le> h" "h < 24" "0 \<le> mi" "mi < 60"
      "DetectedText d = appendInt h 2 @ ''.'' @ appendInt mi 2 \<or>
       DetectedText d = appendInt h 2 @ appendInt mi 2" for h mi
    using parseTime_zero [OF that(1-4)] that(5) by auto
  from f s p show ?thesis by blast
qed

lemma prime_grid_skeleton: "prime grid_image = Inr grid_skeleton"
  by (simp add: prime_grid_image grid_skeleton_def)

text \<open>
  The word \<open>15.04\<close> in the In column of row 0, with no date set in any entry.
\<close>

theorem scan_time_before_date_witness:
  "scan_loop [one_time_word] grid_skeleton [emptyEntry, emptyEntry] =
     Inr [\<lparr>date = zeroTime, activity = [], inTime = Some (Date 1 1 1 15 4 0 0), outTime = None\<rparr>,
          emptyEntry]"
proof -
  have w: "Type one_time_word = Some ''WORD''"
    by (simp add: one_time_word_def)
  have ce: "center (Geometry one_time_word) grid_skeleton = (11, 2)"
    by code_simp
  have c: "Cols_Find (Cols grid_skeleton) 11 = Inr 2" "(2::int) = 2 \<or> (2::int) = 3"
    by (simp_all add: grid_skeleton_def)
  have r: "Rows_Find (Rows grid_skeleton) 2 = Inr 0" "(0::int) \<le> 0"
    "0 < int (length [emptyEntry, emptyEntry])"
    by (simp_all add: grid_skeleton_def)
  have z: "date ([emptyEntry, emptyEntry] ! nat 0) = zeroTime"
    by (simp add: emptyEntry_def)
  have t: "DetectedText one_time_word = appendInt 15 2 @ ''.'' @ appendInt 4 2"
    by code_simp
  note th = scan_time_before_date [OF w ce c r z, of "[]"]
  have p: "parseTime ''01010001'' (DetectedText one_time_word) = Inr (Date 1 1 1 15 4 0 0)"
    using th [THEN conjunct2, THEN conjunct2, rule_format, of 15 4] t by simp
  show ?thesis
    using th [THEN conjunct2, THEN conjunct1] unfolding p
    by (simp add: emptyEntry_def)
qed

text \<open>
  C1 as stated fails: for the skeleton of the image with three marks and the single word
  \<open>15.04\<close> in the In column of row 0, no date is ever set, and \<open>scan\<close> returns the entries,
  the first with the arrival 15:04.
\<close>

theorem scan_time_before_date_counterexample:
  "prime grid_image = Inr grid_skeleton \<and>
   center (Geometry one_time_word) grid_skeleton = (11, 2) \<and>
   Cols_Find (Cols grid_skeleton) 11 = Inr 2 \<and>
   Rows_Find (Rows grid_skeleton) 2 = Inr 0 \<and>
   scan [one_time_word] grid_skeleton =
     Inr [\<lparr>date = zeroTime, activity = [], inTime = Some (Date 1 1 1 15 4 0 0), outTime = None\<rparr>,
          emptyEntry]"
proof -
  have "center (Geometry one_time_word) grid_skeleton = (11, 2)"
    by code_simp
  moreover have "Cols_Find (Cols grid_skeleton) 11 = Inr 2"
    "Rows_Find (Rows grid_skeleton) 2 = Inr 0"
    by (simp_all add: grid_skeleton_def)
  moreover have "scan [one_time_word] grid_skeleton =
     Inr [\<lparr>date = zeroTime, activity = [], inTime = Some (Date 1 1 1 15 4 0 0), outTime = None\<rparr>,
          emptyEntry]"
    by code_simp
  ultimately show ?thesis
    using prime_grid_skeleton by simp
qed

end
